theory Spec2Isabelle
  imports Main
begin

section \<open>The build command of the static-site generator\<close>

text \<open>
  This theory embeds \<^verbatim>\<open>packages/core/src/commands/build.js\<close>: the functions
  \<^verbatim>\<open>getContentPath\<close>, \<^verbatim>\<open>getContent\<close>, \<^verbatim>\<open>createFetchFunction\<close>,
  \<^verbatim>\<open>prerenderFileAndDependencies\<close> and \<^verbatim>\<open>build\<close>.

  The JavaScript is effectful and asynchronous. The embedding makes every effect
  explicit: an operation is a function from the world to an outcome and the world after
  it, an exception or a rejected promise is the outcome \<open>Inl e\<close>, and every call that
  leaves the orchestrator (console, file system, server, plugins) is recorded, in the order
  of the calls, in the world's list of events.
\<close>

subsection \<open>Values, plugins and configuration\<close>

text \<open>A thrown value: \<^verbatim>\<open>Error(message)\<close>, or the \<^verbatim>\<open>URIError\<close> of \<^verbatim>\<open>decodeURIComponent\<close>.\<close>

datatype exn = Error string | URIError string

text \<open>The opaque artefacts handed from one plugin to the next.\<close>

datatype PhenomicAssets = Assets string
datatype PhenomicAppType = App string
datatype RouteTable = Routes string

text \<open>A file returned by \<^verbatim>\<open>renderStatic\<close>: \<^verbatim>\<open>{path, contents}\<close>.\<close>

record RenderedFile =
  file_path :: string
  file_contents :: string

text \<open>A file found in the content directory, and the content store (record id to record).\<close>

record ContentFile =
  file_name :: string
  file_data :: string

type_synonym ContentStore = "string \<rightharpoonup> string"

text \<open>
  \<^verbatim>\<open>phenomicFetch\<close> maps a query to the parsed JSON of the response, or rejects.
\<close>

type_synonym PhenomicFetch = "string \<Rightarrow> exn + string"

text \<open>
  The configuration is \<^verbatim>\<open>{path, content, outdir, plugins}\<close>. A plugin capability
  receives the configuration; a record type cannot mention itself, so the callable sees the
  three scalar fields (\<open>PhenomicSettings\<close>) of the configuration it is called with.
\<close>

record PhenomicSettings =
  path :: string
  content :: string
  outdir :: string

text \<open>
  A plugin is a name and up to eight callables; an absent capability (\<^verbatim>\<open>undefined\<close>
  in JavaScript, hence falsy) is \<open>None\<close>. Field \<open>p_x\<close> is \<^verbatim>\<open>plugin.x\<close>. An
  asynchronous capability returns the outcome its promise settles with. A capability is a
  function of its arguments: what the code of a plugin does on its own to the disk, to the
  store or to the console is outside the world described below, which records the calls
  and the writes that \<^verbatim>\<open>build.js\<close> makes.
\<close>

record PhenomicPlugin =
  name :: string
  p_transform :: "(ContentFile \<Rightarrow> exn + ContentFile) option"
  p_collect :: "(ContentStore \<Rightarrow> ContentFile \<Rightarrow> exn + ContentStore) option"
  p_beforeBuild :: "(PhenomicSettings \<Rightarrow> exn + unit) option"
  p_build :: "(PhenomicSettings \<Rightarrow> exn + PhenomicAssets) option"
  p_buildForPrerendering :: "(PhenomicSettings \<Rightarrow> exn + PhenomicAppType) option"
  p_getRoutes :: "(PhenomicAppType \<Rightarrow> exn + RouteTable) option"
  p_resolveURLs :: "(RouteTable \<Rightarrow> PhenomicFetch \<Rightarrow> exn + string list) option"
  p_renderStatic ::
    "(PhenomicSettings \<Rightarrow> PhenomicAppType \<Rightarrow> PhenomicAssets \<Rightarrow> PhenomicFetch \<Rightarrow> string
        \<Rightarrow> exn + RenderedFile list) option"

record PhenomicConfig = PhenomicSettings +
  plugins :: "PhenomicPlugin list"

definition settings :: "PhenomicConfig \<Rightarrow> PhenomicSettings" where
  "settings config = \<lparr>path = path config, content = content config, outdir = outdir config\<rparr>"

subsection \<open>The world and its operations\<close>

text \<open>The calls the orchestrator makes, as they appear in the trace.\<close>

datatype event =
    ConsoleLog string
  | LogWarn string
  | RimrafSync string
  | CreateServer
  | GetPort
  | Listen nat
  | ServerClose
  | BeforeBuild string
  | Build string
  | BuildForPrerendering string
  | GetPath string
  | OneShot string
  | DbDestroy
  | ProcessFile string
  | GetRoutes string
  | ResolveURLs string
  | RenderStatic string
  | WriteFile string string

text \<open>
  The world: the files on disk (path to contents), the content store \<^verbatim>\<open>db\<close> (a module
  singleton, so it outlives one call of \<^verbatim>\<open>build\<close>), \<^verbatim>\<open>process.env\<close>, and the trace.
\<close>

record world =
  fs :: "string \<rightharpoonup> string"
  db :: ContentStore
  process_env :: "string \<rightharpoonup> string"
  events :: "event list"

text \<open>
  What the surroundings decide: whether \<^verbatim>\<open>rimraf.sync\<close> throws, which port
  \<^verbatim>\<open>getPort\<close> resolves to (or its rejection), which directories exist and what the
  scan of one finds, whether a write fails, what the content API answers on a port for
  a store and a query, and in which order the promises of a concurrent map settle.
\<close>

record env =
  rimraf_error :: "string \<Rightarrow> exn option"
  getPort_result :: "exn + nat"
  dir_exists :: "string \<Rightarrow> bool"
  content_files :: "string \<Rightarrow> ContentFile list"
  writeFile_error :: "string \<Rightarrow> exn option"
  api_response :: "nat \<Rightarrow> ContentStore \<Rightarrow> string \<Rightarrow> exn + string"
  settle_order :: "nat \<Rightarrow> nat"

type_synonym 'a io = "world \<Rightarrow> (exn + 'a) \<times> world"

definition return :: "'a \<Rightarrow> 'a io" where
  "return x w = (Inr x, w)"

definition throw :: "exn \<Rightarrow> 'a io" where
  "throw e w = (Inl e, w)"

text \<open>
  \<open>await m f\<close> runs \<open>m\<close> and continues with \<open>f\<close> on its value; a throw or a
  rejection of \<open>m\<close> skips \<open>f\<close>. It also sequences synchronous statements.
\<close>

definition await :: "'a io \<Rightarrow> ('a \<Rightarrow> 'b io) \<Rightarrow> 'b io" where
  "await m f w = (case m w of (Inl e, w') \<Rightarrow> (Inl e, w') | (Inr x, w') \<Rightarrow> f x w')"

text \<open>\<^verbatim>\<open>try { m } catch (error) { h error }\<close>\<close>

definition try_catch :: "'a io \<Rightarrow> (exn \<Rightarrow> 'a io) \<Rightarrow> 'a io" where
  "try_catch m h w = (case m w of (Inl e, w') \<Rightarrow> h e w' | (Inr x, w') \<Rightarrow> (Inr x, w'))"

definition emit :: "event \<Rightarrow> unit io" where
  "emit ev w = (Inr (), w\<lparr>events := events w @ [ev]\<rparr>)"

text \<open>A call that leaves the orchestrator: it is recorded, and settles with \<open>r\<close>.\<close>

definition call :: "event \<Rightarrow> exn + 'a \<Rightarrow> 'a io" where
  "call ev r w = (r, w\<lparr>events := events w @ [ev]\<rparr>)"

text \<open>An expression that yields a value or throws, and leaves the world as it is.\<close>

definition outcome :: "exn + 'a \<Rightarrow> 'a io" where
  "outcome r w = (r, w)"

text \<open>
  A promise is modelled by the outcome it settles with; the effects of the operation
  behind it are applied to the world when the operation is started. Starting an
  asynchronous operation never throws: it yields the promise.
\<close>

definition start :: "'a io \<Rightarrow> (exn + 'a) io" where
  "start m w = (case m w of (r, w') \<Rightarrow> (Inr r, w'))"

text \<open>
  \<^verbatim>\<open>array.map(f)\<close>: the callback runs on each element in order; a throw of the
  callback ends the map.
\<close>

fun array_map :: "('a \<Rightarrow> 'b io) \<Rightarrow> 'a list \<Rightarrow> 'b list io" where
  "array_map f [] w = (Inr [], w)"
| "array_map f (x # xs) w =
     (case f x w of
        (Inl e, w') \<Rightarrow> (Inl e, w')
      | (Inr y, w') \<Rightarrow>
          (case array_map f xs w' of
             (Inl e, w'') \<Rightarrow> (Inl e, w'')
           | (Inr ys, w'') \<Rightarrow> (Inr (y # ys), w'')))"

text \<open>
  \<^verbatim>\<open>Promise.all(promises)\<close> resolves with all the values, or rejects with the first
  rejection; the first in time is taken to be the first in the list.
\<close>

fun all_settled :: "(exn + 'a) list \<Rightarrow> exn + 'a list" where
  "all_settled [] = Inr []"
| "all_settled (Inl e # ps) = Inl e"
| "all_settled (Inr x # ps) = (case all_settled ps of Inl e \<Rightarrow> Inl e | Inr xs \<Rightarrow> Inr (x # xs))"

definition Promise_all :: "(exn + 'a) list \<Rightarrow> 'a list io" where
  "Promise_all ps w = (all_settled ps, w)"

text \<open>
  Modelled from the spec: \<^verbatim>\<open>pMap(input, mapper, {concurrency})\<close> of the p-map package,
  whose source is not part of the repository: "at most a fixed number (reference value: 50)
  of renderStatic+write operations may be in flight simultaneously across the whole URL
  list", "a failure rendering or writing any single URL fails the whole fan-out operation
  (fail-fast, not best-effort)", "aborts the whole fan-out on first rejection without
  explicit draining". The package documents \<^verbatim>\<open>concurrency\<close> as the number of mapper
  promises pending at once and rejects a value below 1.

  The map keeps a state: the inputs not yet started, the mappers in flight (started, their
  promise not yet settled) with their index, the values of the settled ones, and whether
  the map has rejected. \<open>pmap_next\<close> is the package's \<^verbatim>\<open>next()\<close>: it starts the mapper of
  the next input, unless the map has rejected or no input is left. The map opens with up
  to \<open>concurrency\<close> calls of it. Then promises settle, one at a time, in an order that the
  surroundings decide (\<open>sched\<close> picks, at each settlement, one of the mappers in flight): a
  resolved one stores its value and calls \<^verbatim>\<open>next()\<close>; a rejected one rejects the map, at
  once, and the mappers still in flight are left to themselves.

  As for every promise here, what a mapper does to the world is applied when the mapper is
  started; in the program, the calls it makes after its first suspension fall later, and
  for a mapper still in flight when the map rejects they may fall after the rejection.
\<close>

record ('a, 'b) pmap_state =
  pm_pending :: "'a list"
  pm_next_index :: nat
  pm_in_flight :: "(nat \<times> (exn + 'b)) list"
  pm_resolved :: "(nat \<times> 'b) list"
  pm_settled :: nat
  pm_rejected :: "exn option"
  pm_world :: world

definition pmap_initial :: "'a list \<Rightarrow> world \<Rightarrow> ('a, 'b) pmap_state" where
  "pmap_initial input w =
     \<lparr>pm_pending = input, pm_next_index = 0, pm_in_flight = [], pm_resolved = [],
      pm_settled = 0, pm_rejected = None, pm_world = w\<rparr>"

definition pmap_next :: "('a \<Rightarrow> 'b io) \<Rightarrow> ('a, 'b) pmap_state \<Rightarrow> ('a, 'b) pmap_state" where
  "pmap_next mapper st =
     (if pm_rejected st \<noteq> None then st
      else case pm_pending st of
             [] \<Rightarrow> st
           | x # xs \<Rightarrow>
               (case mapper x (pm_world st) of
                  (r, w') \<Rightarrow>
                    st\<lparr>pm_pending := xs,
                       pm_next_index := Suc (pm_next_index st),
                       pm_in_flight := pm_in_flight st @ [(pm_next_index st, r)],
                       pm_world := w'\<rparr>))"

text \<open>The opening loop: \<^verbatim>\<open>for (i < concurrency) { next(); if (iterableDone) break; }\<close>\<close>

fun pmap_start :: "('a \<Rightarrow> 'b io) \<Rightarrow> nat \<Rightarrow> ('a, 'b) pmap_state \<Rightarrow> ('a, 'b) pmap_state" where
  "pmap_start mapper 0 st = st"
| "pmap_start mapper (Suc n) st =
     (if pm_pending st = [] then st else pmap_start mapper n (pmap_next mapper st))"

text \<open>One settlement: of the mapper in flight at position \<open>sched (pm_settled st)\<close>.\<close>

definition pmap_settle ::
  "(nat \<Rightarrow> nat) \<Rightarrow> ('a \<Rightarrow> 'b io) \<Rightarrow> ('a, 'b) pmap_state \<Rightarrow> ('a, 'b) pmap_state" where
  "pmap_settle sched mapper st =
     (if pm_in_flight st = [] then st
      else
        (let k = sched (pm_settled st) mod length (pm_in_flight st);
             st1 = st\<lparr>pm_in_flight := take k (pm_in_flight st) @ drop (Suc k) (pm_in_flight st),
                      pm_settled := Suc (pm_settled st)\<rparr>
         in case pm_in_flight st ! k of
              (i, Inl e) \<Rightarrow>
                st1\<lparr>pm_rejected := Some (case pm_rejected st of None \<Rightarrow> e | Some e0 \<Rightarrow> e0)\<rparr>
            | (i, Inr v) \<Rightarrow>
                pmap_next mapper (st1\<lparr>pm_resolved := pm_resolved st @ [(i, v)]\<rparr>)))"

text \<open>
  The promise of the map: rejected as soon as a mapper's rejection is seen, resolved with
  the values in the order of the inputs when nothing is in flight any more.
\<close>

function pmap_run ::
  "(nat \<Rightarrow> nat) \<Rightarrow> ('a \<Rightarrow> 'b io) \<Rightarrow> ('a, 'b) pmap_state \<Rightarrow> (exn + 'b list) \<times> world" where
  "pmap_run sched mapper st =
     (case pm_rejected st of
        Some e \<Rightarrow> (Inl e, pm_world st)
      | None \<Rightarrow>
          (if pm_in_flight st = [] then
             (Inr (map snd (sort_key fst (pm_resolved st))), pm_world st)
           else pmap_run sched mapper (pmap_settle sched mapper st)))"
  by pat_completeness auto
termination
proof (relation "measure (\<lambda>(sched, mapper, st). length (pm_pending st) + length (pm_in_flight st))")
  show "wf (measure (\<lambda>(sched, mapper, st). length (pm_pending st) + length (pm_in_flight st)))"
    by simp
next
  fix sched :: "nat \<Rightarrow> nat" and mapper :: "'a \<Rightarrow> 'b io" and st :: "('a, 'b) pmap_state"
  assume "pm_rejected st = None" and nonempty: "pm_in_flight st \<noteq> []"
  let ?k = "sched (pm_settled st) mod length (pm_in_flight st)"
  from nonempty have k: "?k < length (pm_in_flight st)" by simp
  then have shorter:
    "length (take ?k (pm_in_flight st) @ drop (Suc ?k) (pm_in_flight st)) < length (pm_in_flight st)"
    by simp
  obtain i r where ir: "pm_in_flight st ! ?k = (i, r)" by (cases "pm_in_flight st ! ?k")
  have "length (pm_pending (pmap_settle sched mapper st)) +
        length (pm_in_flight (pmap_settle sched mapper st)) <
        length (pm_pending st) + length (pm_in_flight st)"
  proof (cases r)
    case (Inl e)
    with nonempty ir shorter show ?thesis
      by (simp add: pmap_settle_def Let_def)
  next
    case (Inr v)
    with nonempty ir shorter \<open>pm_rejected st = None\<close> show ?thesis
      by (auto simp: pmap_settle_def pmap_next_def Let_def split: list.splits prod.splits)
  qed
  then show "((sched, mapper, pmap_settle sched mapper st), (sched, mapper, st)) \<in>
      measure (\<lambda>(sched, mapper, st). length (pm_pending st) + length (pm_in_flight st))"
    by simp
qed

declare pmap_run.simps [simp del]

definition pMap :: "(nat \<Rightarrow> nat) \<Rightarrow> 'a list \<Rightarrow> ('a \<Rightarrow> 'b io) \<Rightarrow> nat \<Rightarrow> 'b list io" where
  "pMap sched input mapper concurrency w =
     (if concurrency = 0 then
        (Inl (Error ''Expected `concurrency` to be a number from 1 and up''), w)
      else pmap_run sched mapper (pmap_start mapper concurrency (pmap_initial input w)))"

text \<open>\<^verbatim>\<open>array[0]\<close>: \<^verbatim>\<open>undefined\<close> on an empty array.\<close>

fun first_item :: "'a list \<Rightarrow> 'a option" where
  "first_item [] = None"
| "first_item (x # xs) = Some x"

text \<open>\<^verbatim>\<open>haystack.includes(needle)\<close>\<close>

fun starts_with :: "string \<Rightarrow> string \<Rightarrow> bool" where
  "starts_with s [] = True"
| "starts_with [] (c # cs) = False"
| "starts_with (d # ds) (c # cs) = (d = c \<and> starts_with ds cs)"

fun str_includes :: "string \<Rightarrow> string \<Rightarrow> bool" where
  "str_includes [] needle = (needle = [])"
| "str_includes (d # ds) needle = (starts_with (d # ds) needle \<or> str_includes ds needle)"

subsection \<open>Platform functions: \<^verbatim>\<open>decodeURIComponent\<close> and \<^verbatim>\<open>path.join\<close>\<close>

text \<open>
  A string is the list of the bytes of its UTF-8 encoding. \<^verbatim>\<open>decodeURIComponent\<close>
  replaces each escape \<^verbatim>\<open>%XY\<close> by the byte it names and throws a \<^verbatim>\<open>URIError\<close> when
  an escape is cut short or has a digit that is not hexadecimal, or when the escaped bytes
  above 127 are not the UTF-8 encoding of code points.
\<close>

definition hex_value :: "char \<Rightarrow> nat option" where
  "hex_value c =
     (let n = (of_char c :: nat) in
      if 48 \<le> n \<and> n \<le> 57 then Some (n - 48)
      else if 65 \<le> n \<and> n \<le> 70 then Some (n - 55)
      else if 97 \<le> n \<and> n \<le> 102 then Some (n - 87)
      else None)"

datatype uri_token = Literal char | Escaped nat

fun uri_tokens :: "string \<Rightarrow> uri_token list option" where
  "uri_tokens [] = Some []"
| "uri_tokens (c # cs) =
     (if c \<noteq> CHR ''%'' then map_option (Cons (Literal c)) (uri_tokens cs)
      else (case cs of
              h # l # rest \<Rightarrow>
                (case (hex_value h, hex_value l) of
                   (Some a, Some b) \<Rightarrow> map_option (Cons (Escaped (16 * a + b))) (uri_tokens rest)
                 | _ \<Rightarrow> None)
            | _ \<Rightarrow> None))"

definition continuation :: "nat \<Rightarrow> nat \<Rightarrow> uri_token \<Rightarrow> bool" where
  "continuation lo hi t = (case t of Escaped b \<Rightarrow> lo \<le> b \<and> b \<le> hi | Literal c \<Rightarrow> False)"

definition token_char :: "uri_token \<Rightarrow> char" where
  "token_char t = (case t of Escaped b \<Rightarrow> char_of b | Literal c \<Rightarrow> c)"

text \<open>
  The well-formed byte sequences of UTF-8: a lead byte fixes how many continuation bytes
  follow and the range of the first of them (no overlong form, no surrogate, nothing above
  U+10FFFF).
\<close>

definition utf8_shape :: "nat \<Rightarrow> (nat \<times> nat \<times> nat) option" where
  "utf8_shape b =
     (if 194 \<le> b \<and> b \<le> 223 then Some (1, 128, 191)
      else if b = 224 then Some (2, 160, 191)
      else if 225 \<le> b \<and> b \<le> 236 then Some (2, 128, 191)
      else if b = 237 then Some (2, 128, 159)
      else if 238 \<le> b \<and> b \<le> 239 then Some (2, 128, 191)
      else if b = 240 then Some (3, 144, 191)
      else if 241 \<le> b \<and> b \<le> 243 then Some (3, 128, 191)
      else if b = 244 then Some (3, 128, 143)
      else None)"

fun decode_tokens :: "nat \<Rightarrow> uri_token list \<Rightarrow> string option" where
  "decode_tokens pending [] = (if pending = 0 then Some [] else None)"
| "decode_tokens pending (t # ts) =
     (if 0 < pending then
        (if continuation 128 191 t then map_option (Cons (token_char t)) (decode_tokens (pending - 1) ts)
         else None)
      else (case t of
              Literal c \<Rightarrow> map_option (Cons c) (decode_tokens 0 ts)
            | Escaped b \<Rightarrow>
                (if b < 128 then map_option (Cons (char_of b)) (decode_tokens 0 ts)
                 else (case utf8_shape b of
                         None \<Rightarrow> None
                       | Some (n, lo, hi) \<Rightarrow>
                           (case ts of
                              [] \<Rightarrow> None
                            | t1 # ts1 \<Rightarrow>
                                (if continuation lo hi t1
                                 then map_option (\<lambda>s. char_of b # token_char t1 # s)
                                        (decode_tokens (n - 1) ts1)
                                 else None))))))"

definition decodeURIComponent :: "string \<Rightarrow> exn + string" where
  "decodeURIComponent s =
     (case uri_tokens s of
        None \<Rightarrow> Inl (URIError ''URI malformed'')
      | Some ts \<Rightarrow>
          (case decode_tokens 0 ts of
             None \<Rightarrow> Inl (URIError ''URI malformed'')
           | Some r \<Rightarrow> Inr r))"

text \<open>
  \<^verbatim>\<open>path.join\<close> on POSIX: the non-empty arguments are joined by a slash and the result
  is normalised: empty and \<^verbatim>\<open>.\<close> segments go, \<^verbatim>\<open>..\<close> removes the segment before it
  (and is kept at the front of a relative path), a trailing slash stays.
\<close>

fun split_slash :: "string \<Rightarrow> string list" where
  "split_slash [] = [[]]"
| "split_slash (c # cs) =
     (if c = CHR ''/'' then [] # split_slash cs
      else (case split_slash cs of seg # segs \<Rightarrow> (c # seg) # segs | [] \<Rightarrow> [[c]]))"

fun join_slash :: "string list \<Rightarrow> string" where
  "join_slash [] = []"
| "join_slash [seg] = seg"
| "join_slash (seg # segs) = seg @ ''/'' @ join_slash segs"

text \<open>The segments kept so far are held last segment first.\<close>

fun normalizeString :: "bool \<Rightarrow> string list \<Rightarrow> string list \<Rightarrow> string list" where
  "normalizeString allowAboveRoot kept [] = rev kept"
| "normalizeString allowAboveRoot kept (seg # segs) =
     (if seg = [] \<or> seg = ''.'' then normalizeString allowAboveRoot kept segs
      else if seg = ''..'' then
        (case kept of
           seg1 # below \<Rightarrow>
             (if seg1 = ''..'' then normalizeString allowAboveRoot (''..'' # kept) segs
              else normalizeString allowAboveRoot below segs)
         | [] \<Rightarrow>
             (if allowAboveRoot then normalizeString allowAboveRoot [''..''] segs
              else normalizeString allowAboveRoot [] segs))
      else normalizeString allowAboveRoot (seg # kept) segs)"

definition path_normalize :: "string \<Rightarrow> string" where
  "path_normalize p =
     (if p = [] then ''.''
      else
        (let isAbsolute = (hd p = CHR ''/'');
             trailingSeparator = (last p = CHR ''/'');
             body = join_slash (normalizeString (\<not> isAbsolute) [] (split_slash p));
             body1 = (if body = [] \<and> \<not> isAbsolute then ''.'' else body);
             body2 = (if body1 \<noteq> [] \<and> trailingSeparator then body1 @ ''/'' else body1)
         in if isAbsolute then ''/'' @ body2 else body2))"

definition path_join :: "string list \<Rightarrow> string" where
  "path_join args =
     (let joined = join_slash (filter (\<lambda>arg. arg \<noteq> []) args)
      in if joined = [] then ''.'' else path_normalize joined)"

subsection \<open>Collaborators outside \<^verbatim>\<open>build.js\<close>\<close>

definition console_log :: "string \<Rightarrow> unit io" where
  "console_log msg = emit (ConsoleLog msg)"

text \<open>
  \<^verbatim>\<open>rimraf.sync(p)\<close> removes \<open>p\<close> and everything below it, or throws. Paths are
  compared as they are written.
\<close>

definition rimraf_sync :: "env \<Rightarrow> string \<Rightarrow> unit io" where
  "rimraf_sync env p w =
     (let w1 = w\<lparr>events := events w @ [RimrafSync p]\<rparr>
      in case rimraf_error env p of
           Some e \<Rightarrow> (Inl e, w1)
         | None \<Rightarrow>
             (Inr (), w1\<lparr>fs := (\<lambda>q. if q = p \<or> starts_with q (p @ ''/'') then None else fs w1 q)\<rparr>))"

text \<open>\<^verbatim>\<open>getPort()\<close> of the get-port package resolves to a free port, or rejects.\<close>

definition getPort :: "env \<Rightarrow> nat io" where
  "getPort env = call GetPort (getPort_result env)"

text \<open>
  Modelled from the spec: \<^verbatim>\<open>createServer\<close> of \<^verbatim>\<open>../api\<close>, whose source is missing,
  with \<^verbatim>\<open>listen\<close> and \<^verbatim>\<open>close\<close> of the server it returns: "an HTTP server wrapping
  the Content Store, bound to a free local port for the duration of the build only". The
  three calls are recorded; none of them throws.
\<close>

definition createServer :: "PhenomicPlugin list \<Rightarrow> unit io" where
  "createServer ps = emit CreateServer"

definition server_listen :: "nat \<Rightarrow> unit io" where
  "server_listen port = emit (Listen port)"

definition server_close :: "unit io" where
  "server_close = emit ServerClose"

text \<open>
  Modelled from the spec: \<^verbatim>\<open>log.warn\<close> of \<^verbatim>\<open>../utils/log\<close>, whose source is missing:
  "emit a non-fatal warning".
\<close>

definition log_warn :: "string \<Rightarrow> unit io" where
  "log_warn msg = emit (LogWarn msg)"

text \<open>
  Modelled from the spec: \<^verbatim>\<open>getPath\<close> of \<^verbatim>\<open>../utils/getPath\<close>, whose source is
  missing: "resolve the content directory; if it does not exist ...": it resolves to the
  path of an existing directory and rejects otherwise.
\<close>

definition getPath :: "env \<Rightarrow> string \<Rightarrow> string io" where
  "getPath env p =
     call (GetPath p)
       (if dir_exists env p then Inr p else Inl (Error (p @ '' is not a directory'')))"

text \<open>
  Modelled from the spec: \<^verbatim>\<open>oneShot\<close> of \<^verbatim>\<open>../watch\<close>, whose source is missing:
  "enumerate files once (a single synchronous, non-incremental scan)".
\<close>

definition oneShot :: "env \<Rightarrow> string \<Rightarrow> ContentFile list io" where
  "oneShot env p = call (OneShot p) (Inr (content_files env p))"

text \<open>
  Modelled from the spec: \<^verbatim>\<open>db.destroy\<close> of \<^verbatim>\<open>../db\<close>, whose source is missing:
  "destroy the existing Content Store": the store is empty afterwards.
\<close>

definition db_destroy :: "unit io" where
  "db_destroy w = (Inr (), w\<lparr>db := Map.empty, events := events w @ [DbDestroy]\<rparr>)"

text \<open>
  Modelled from the spec: \<^verbatim>\<open>processFile\<close> of \<^verbatim>\<open>../injection/processFile\<close>, whose
  source is missing: "transform chain (each transform plugin may inspect/mutate/reject the
  file; all transform plugins run in registration order per file), then collect chain (each
  collect plugin may persist all or part of the transformed file into the Store)". A
  rejection ends the chain; what the collectors before it have stored stays.
\<close>

fun transform_chain :: "PhenomicPlugin list \<Rightarrow> ContentFile \<Rightarrow> exn + ContentFile" where
  "transform_chain [] file = Inr file"
| "transform_chain (t # ts) file =
     (case p_transform t of
        None \<Rightarrow> transform_chain ts file
      | Some transform \<Rightarrow>
          (case transform file of
             Inl e \<Rightarrow> Inl e
           | Inr file' \<Rightarrow> transform_chain ts file'))"

fun collect_chain ::
  "PhenomicPlugin list \<Rightarrow> ContentFile \<Rightarrow> ContentStore \<Rightarrow> (exn + unit) \<times> ContentStore" where
  "collect_chain [] file store = (Inr (), store)"
| "collect_chain (c # cs) file store =
     (case p_collect c of
        None \<Rightarrow> collect_chain cs file store
      | Some collect \<Rightarrow>
          (case collect store file of
             Inl e \<Rightarrow> (Inl e, store)
           | Inr store' \<Rightarrow> collect_chain cs file store'))"

definition processFile ::
  "ContentFile \<Rightarrow> PhenomicPlugin list \<Rightarrow> PhenomicPlugin list \<Rightarrow> unit io" where
  "processFile file transformers collectors w =
     (let w1 = w\<lparr>events := events w @ [ProcessFile (file_name file)]\<rparr>
      in case transform_chain transformers file of
           Inl e \<Rightarrow> (Inl e, w1)
         | Inr file' \<Rightarrow>
             (case collect_chain collectors file' (db w1) of
                (r, store) \<Rightarrow> (r, w1\<lparr>db := store\<rparr>)))"

text \<open>
  Modelled from the spec: \<^verbatim>\<open>writeFile\<close> of \<^verbatim>\<open>../utils/writeFile\<close>, whose source is
  missing: "each output file is written ..., creating intermediate directories as needed,
  overwriting existing files"; a write that fails rejects and leaves the disk as it was.
\<close>

definition writeFile :: "env \<Rightarrow> string \<Rightarrow> string \<Rightarrow> unit io" where
  "writeFile env p c w =
     (let w1 = w\<lparr>events := events w @ [WriteFile p c]\<rparr>
      in case writeFile_error env p of
           Some e \<Rightarrow> (Inl e, w1)
         | None \<Rightarrow> (Inr (), w1\<lparr>fs := (fs w1)(p \<mapsto> c)\<rparr>))"

subsection \<open>\<^verbatim>\<open>build.js\<close>\<close>

text \<open>Lines 21-22.\<close>

definition getContentPath :: "env \<Rightarrow> PhenomicConfig \<Rightarrow> string io" where
  "getContentPath env config = getPath env (path_join [path config, content config])"

text \<open>
  Lines 25-69. The store is the module's \<^verbatim>\<open>db\<close>, held in the world. An empty string
  for \<^verbatim>\<open>contentPath\<close> is as falsy as \<^verbatim>\<open>undefined\<close>.
\<close>

definition getContent :: "env \<Rightarrow> PhenomicConfig \<Rightarrow> unit io" where
  "getContent env config =
     (let transformers = filter (\<lambda>item. p_transform item \<noteq> None) (plugins config)
      in if transformers = [] then throw (Error ''Phenomic expects at least a transform plugin'')
         else
           (let collectors = filter (\<lambda>item. p_collect item \<noteq> None) (plugins config)
            in if collectors = [] then
                 throw (Error ''Phenomic expects at least a collector plugin'')
               else
                 await
                   (try_catch
                      (await (getContentPath env config) (\<lambda>p. return (Some p)))
                      (\<lambda>e. await
                             (log_warn
                                (''no '' @ [CHR 0x27] @ content config @ [CHR 0x27] @
                                 '' folder found. Please create and put files in this folder if you want the content to be accessible (eg: markdown or JSON files). ''))
                             (\<lambda>_. return None)))
                   (\<lambda>contentPath.
                      case contentPath of
                        None \<Rightarrow> return ()
                      | Some p \<Rightarrow>
                          if p = [] then return ()
                          else
                            await (oneShot env p) (\<lambda>files.
                            await db_destroy (\<lambda>_.
                            await
                              (await
                                 (array_map
                                    (\<lambda>file. start (processFile file transformers collectors))
                                    files)
                                 Promise_all)
                              (\<lambda>_. return ()))))))"

text \<open>
  Lines 70-80. The function returned reads the store when it is called; a plugin is given
  the function for the store as it is at the time of the plugin's call.
\<close>

definition createFetchFunction :: "env \<Rightarrow> nat \<Rightarrow> ContentStore \<Rightarrow> PhenomicFetch" where
  "createFetchFunction env port store = (\<lambda>query. api_response env port store query)"

text \<open>
  Line 113, the first argument of \<^verbatim>\<open>writeFile\<close>:
  \<^verbatim>\<open>path.join(config.outdir, decodeURIComponent(file.path))\<close>.
\<close>

definition output_path :: "PhenomicConfig \<Rightarrow> RenderedFile \<Rightarrow> exn + string" where
  "output_path config file =
     (case decodeURIComponent (file_path file) of
        Inl e \<Rightarrow> Inl e
      | Inr decoded \<Rightarrow> Inr (path_join [outdir config, decoded]))"

text \<open>Lines 81-118.\<close>

definition prerenderFileAndDependencies ::
  "env \<Rightarrow> PhenomicConfig \<Rightarrow> PhenomicPlugin option \<Rightarrow> PhenomicAppType \<Rightarrow> PhenomicAssets
     \<Rightarrow> (ContentStore \<Rightarrow> PhenomicFetch) \<Rightarrow> string \<Rightarrow> unit list io" where
  "prerenderFileAndDependencies env config renderer app assets phenomicFetch location =
     (case (case renderer of None \<Rightarrow> None | Some r \<Rightarrow> p_renderStatic r) of
        None \<Rightarrow> throw (Error ''a renderer is required (plugin implementing 'renderStatic')'')
      | Some renderStatic \<Rightarrow>
          await
            (\<lambda>w. call (RenderStatic location)
                    (renderStatic (settings config) app assets (phenomicFetch (db w)) location) w)
            (\<lambda>files.
               await
                 (array_map
                    (\<lambda>file.
                       await (outcome (output_path config file)) (\<lambda>target.
                       start (writeFile env target (file_contents file))))
                    files)
                 Promise_all))"

text \<open>
  Lines 119-214, \<^verbatim>\<open>build\<close>, phase by phase. The \<^verbatim>\<open>debug\<close> calls and the elapsed
  milliseconds in the progress messages (\<^verbatim>\<open>lastStamp\<close>) are left out, and so are the
  pictographs at the head of the messages.
\<close>

text \<open>Lines 120-122.\<close>

definition cleaning :: "env \<Rightarrow> unit io" where
  "cleaning env =
     await (console_log ''Hey! Let's get on with it'') (\<lambda>_. rimraf_sync env ''dist'')"

text \<open>Lines 124-126: \<^verbatim>\<open>process.env.X = process.env.X || "production"\<close>.\<close>

definition env_or :: "(string \<rightharpoonup> string) \<Rightarrow> string \<Rightarrow> string \<Rightarrow> string" where
  "env_or vars k dflt = (case vars k of None \<Rightarrow> dflt | Some v \<Rightarrow> if v = [] then dflt else v)"

definition set_process_env :: "unit io" where
  "set_process_env w =
     (Inr (),
      w\<lparr>process_env :=
          (process_env w)
            (''NODE_ENV'' \<mapsto> env_or (process_env w) ''NODE_ENV'' ''production'',
             ''BABEL_ENV'' \<mapsto> env_or (process_env w) ''BABEL_ENV'' ''production'',
             ''PHENOMIC_ENV'' \<mapsto> ''static'')\<rparr>)"

text \<open>Lines 124-131; the value is the port the server listens on.\<close>

definition serverStarting :: "env \<Rightarrow> PhenomicConfig \<Rightarrow> nat io" where
  "serverStarting env config =
     await set_process_env (\<lambda>_.
     await (createServer (plugins config)) (\<lambda>_.
     await (getPort env) (\<lambda>port.
     await (server_listen port) (\<lambda>_. return port))))"

text \<open>
  Lines 135-139. A hook is taken to be asynchronous, as the \<^verbatim>\<open>Promise.all\<close> around the
  calls expects: it reports a failure by rejecting its promise, so every hook is started.
\<close>

definition beforeBuildHooks :: "PhenomicConfig \<Rightarrow> unit list io" where
  "beforeBuildHooks config =
     await
       (array_map
          (\<lambda>plugin.
             case p_beforeBuild plugin of
               None \<Rightarrow> return (Inr ())
             | Some beforeBuild \<Rightarrow>
                 start (call (BeforeBuild (name plugin)) (beforeBuild (settings config))))
          (plugins config))
       Promise_all"

text \<open>Lines 133-158; the value is \<^verbatim>\<open>assets\<close> and \<^verbatim>\<open>app\<close>.\<close>

definition bundling :: "PhenomicConfig \<Rightarrow> (PhenomicAssets \<times> PhenomicAppType) io" where
  "bundling config =
     (let bundlers = filter (\<lambda>p. p_buildForPrerendering p \<noteq> None) (plugins config);
          bundler = first_item bundlers
      in await (beforeBuildHooks config) (\<lambda>_.
         case (case bundler of None \<Rightarrow> None | Some b \<Rightarrow> map_option (Pair b) (p_build b)) of
           None \<Rightarrow> throw (Error ''a bundler is required (plugin implementing `build`)'')
         | Some (b, build) \<Rightarrow>
             await (call (Build (name b)) (build (settings config))) (\<lambda>assets.
             await (console_log ''Webpack client build done'') (\<lambda>_.
             case p_buildForPrerendering b of
               None \<Rightarrow>
                 throw (Error ''a bundler is required (plugin implementing `buildForPrerendering`)'')
             | Some buildForPrerendering \<Rightarrow>
                 await (call (BuildForPrerendering (name b)) (buildForPrerendering (settings config)))
                   (\<lambda>app.
                 await (console_log ''Webpack static build done'') (\<lambda>_.
                 return (assets, app)))))))"

text \<open>Lines 186-190; \<^verbatim>\<open>logSymbols.warning\<close> is written \<^verbatim>\<open>(warning)\<close>.\<close>

definition no_urls_warning :: string where
  "no_urls_warning =
     ''(warning) No URLs resolved. You should probably double-check your routes. If you are using a single '*' route, you need to add an '/' to get a least a static entry point.''"

text \<open>Lines 163-191; the value is \<^verbatim>\<open>renderer\<close> and \<^verbatim>\<open>urls\<close>.\<close>

definition resolvingRoutes ::
  "env \<Rightarrow> PhenomicConfig \<Rightarrow> nat \<Rightarrow> PhenomicAppType \<Rightarrow> (PhenomicPlugin \<times> string list) io" where
  "resolvingRoutes env config port app =
     (let phenomicFetch = createFetchFunction env port;
          renderers = filter (\<lambda>p. p_getRoutes p \<noteq> None) (plugins config);
          renderer = first_item renderers
      in case (case renderer of None \<Rightarrow> None | Some r \<Rightarrow> map_option (Pair r) (p_getRoutes r)) of
           None \<Rightarrow> throw (Error ''a renderer is required (plugin implementing `getRoutes`)'')
         | Some (r, getRoutes) \<Rightarrow>
             (let urlsResolvers = filter (\<lambda>p. p_resolveURLs p \<noteq> None) (plugins config);
                  urlsResolver = first_item urlsResolvers
              in case (case urlsResolver of None \<Rightarrow> None
                       | Some u \<Rightarrow> map_option (Pair u) (p_resolveURLs u)) of
                   None \<Rightarrow>
                     throw (Error ''an urls-resolver is required (plugin implementing resolveURLs)'')
                 | Some (u, resolveURLs) \<Rightarrow>
                     await (call (GetRoutes (name r)) (getRoutes app)) (\<lambda>routes.
                     await
                       (\<lambda>w. call (ResolveURLs (name u))
                               (resolveURLs routes (phenomicFetch (db w))) w)
                       (\<lambda>urls.
                     await
                       (if urls = [] then
                          console_log no_urls_warning
                        else return ())
                       (\<lambda>_. return (r, urls))))))"

text \<open>Lines 192-206.\<close>

definition prerendering ::
  "env \<Rightarrow> PhenomicConfig \<Rightarrow> nat \<Rightarrow> PhenomicPlugin \<Rightarrow> PhenomicAppType \<Rightarrow> PhenomicAssets
     \<Rightarrow> string list \<Rightarrow> unit io" where
  "prerendering env config port renderer app assets urls =
     await
       (pMap (settle_order env) urls
          (\<lambda>location.
             prerenderFileAndDependencies env config (Some renderer) app assets
               (createFetchFunction env port) location)
          50)
       (\<lambda>_. console_log ''Pre-rendering finished'')"

text \<open>Lines 133-208: the body of the \<^verbatim>\<open>try\<close>.\<close>

definition build_try :: "env \<Rightarrow> PhenomicConfig \<Rightarrow> nat \<Rightarrow> unit io" where
  "build_try env config port =
     await (bundling config) (\<lambda>(assets, app).
     await (getContent env config) (\<lambda>_.
     await (console_log ''Content processed'') (\<lambda>_.
     await (resolvingRoutes env config port app) (\<lambda>(renderer, urls).
     await (prerendering env config port renderer app assets urls) (\<lambda>_.
     server_close)))))"

text \<open>Lines 119-214.\<close>

definition build :: "env \<Rightarrow> PhenomicConfig \<Rightarrow> unit io" where
  "build env config =
     await (cleaning env) (\<lambda>_.
     await (serverStarting env config) (\<lambda>port.
     try_catch (build_try env config port)
       (\<lambda>error. await server_close (\<lambda>_. throw error))))"

subsection \<open>Example sites\<close>

definition plugin_named :: "string \<Rightarrow> PhenomicPlugin" where
  "plugin_named n =
     \<lparr>name = n, p_transform = None, p_collect = None, p_beforeBuild = None, p_build = None,
      p_buildForPrerendering = None, p_getRoutes = None, p_resolveURLs = None,
      p_renderStatic = None\<rparr>"

text \<open>A bundler, a renderer that is also the URL resolver, a transformer and a collector.\<close>

definition webpack_plugin :: PhenomicPlugin where
  "webpack_plugin =
     (plugin_named ''bundler-webpack'')
       \<lparr>p_build := Some (\<lambda>s. Inr (Assets ''main.js'')),
        p_buildForPrerendering := Some (\<lambda>s. Inr (App ''app''))\<rparr>"

definition page_of :: "string \<Rightarrow> RenderedFile list" where
  "page_of location =
     [\<lparr>file_path = location @ ''index.html'', file_contents = ''<html>'' @ location\<rparr>]"

definition react_plugin :: "string list \<Rightarrow> PhenomicPlugin" where
  "react_plugin urls =
     (plugin_named ''renderer-react'')
       \<lparr>p_getRoutes := Some (\<lambda>app. Inr (Routes ''*'')),
        p_resolveURLs := Some (\<lambda>routes fetch. Inr urls),
        p_renderStatic := Some (\<lambda>s app assets fetch location. Inr (page_of location))\<rparr>"

definition markdown_plugin :: PhenomicPlugin where
  "markdown_plugin =
     (plugin_named ''transform-markdown'')
       \<lparr>p_transform := Some (\<lambda>file. Inr (file\<lparr>file_data := ''<p>'' @ file_data file\<rparr>))\<rparr>"

definition collector_plugin :: PhenomicPlugin where
  "collector_plugin =
     (plugin_named ''collector-files'')
       \<lparr>p_collect := Some (\<lambda>store file. Inr (store(file_name file \<mapsto> file_data file)))\<rparr>"

text \<open>A plugin with \<^verbatim>\<open>build\<close> alone, and one whose \<^verbatim>\<open>beforeBuild\<close> hook rejects.\<close>

definition build_only_plugin :: PhenomicPlugin where
  "build_only_plugin =
     (plugin_named ''assets-only'')\<lparr>p_build := Some (\<lambda>s. Inr (Assets ''other.js''))\<rparr>"

definition failing_hook_plugin :: PhenomicPlugin where
  "failing_hook_plugin =
     (plugin_named ''hook'')\<lparr>p_beforeBuild := Some (\<lambda>s. Inl (Error ''hook failed''))\<rparr>"

text \<open>A plugin with \<^verbatim>\<open>buildForPrerendering\<close> alone.\<close>

definition prerender_only_plugin :: PhenomicPlugin where
  "prerender_only_plugin =
     (plugin_named ''prerender-only'')\<lparr>p_buildForPrerendering := Some (\<lambda>s. Inr (App ''app''))\<rparr>"

definition site_config :: "string \<Rightarrow> PhenomicPlugin list \<Rightarrow> PhenomicConfig" where
  "site_config out ps = \<lparr>path = ''/site'', content = ''content'', outdir = out, plugins = ps\<rparr>"

definition full_site :: "string \<Rightarrow> string list \<Rightarrow> PhenomicConfig" where
  "full_site out urls =
     site_config out [webpack_plugin, react_plugin urls, markdown_plugin, collector_plugin]"

text \<open>
  Surroundings in which nothing fails: port 3333 is free, the content directory
  \<^verbatim>\<open>/site/content\<close> exists and holds one file; of the promises of a concurrent map,
  the one started first settles first.
\<close>

definition calm_env :: env where
  "calm_env =
     \<lparr>rimraf_error = (\<lambda>p. None),
      getPort_result = Inr 3333,
      dir_exists = (\<lambda>p. p = ''/site/content''),
      content_files = (\<lambda>p. [\<lparr>file_name = ''post.md'', file_data = ''hello''\<rparr>]),
      writeFile_error = (\<lambda>p. None),
      api_response = (\<lambda>port store query. Inr ''{}''),
      settle_order = (\<lambda>n. 0)\<rparr>"

definition world0 :: world where
  "world0 = \<lparr>fs = Map.empty, db = Map.empty, process_env = Map.empty, events = []\<rparr>"

subsection \<open>Properties of traces and of operations\<close>

text \<open>The events of the prerender fan-out: a call of \<^verbatim>\<open>renderStatic\<close>, a write.\<close>

definition prerender_event :: "event \<Rightarrow> bool" where
  "prerender_event ev = (case ev of RenderStatic l \<Rightarrow> True | WriteFile p c \<Rightarrow> True | _ \<Rightarrow> False)"

definition write_event :: "event \<Rightarrow> bool" where
  "write_event ev = (case ev of WriteFile p c \<Rightarrow> True | _ \<Rightarrow> False)"

definition build_event :: "event \<Rightarrow> bool" where
  "build_event ev = (case ev of Build n \<Rightarrow> True | _ \<Rightarrow> False)"

text \<open>The events of the phases before the fan-out.\<close>

definition prelude_event :: "event \<Rightarrow> bool" where
  "prelude_event ev \<longleftrightarrow> ev \<noteq> ServerClose \<and> \<not> prerender_event ev"

text \<open>\<open>emits Q m\<close>: whatever \<open>m\<close> adds to the trace satisfies \<open>Q\<close>.\<close>

definition emits :: "(event \<Rightarrow> bool) \<Rightarrow> 'a io \<Rightarrow> bool" where
  "emits Q m \<longleftrightarrow> (\<forall>w. \<exists>xs. events (snd (m w)) = events w @ xs \<and> list_all Q xs)"

text \<open>\<open>preserves g m\<close>: \<open>m\<close> leaves the part \<open>g\<close> of the world as it is.\<close>

definition preserves :: "(world \<Rightarrow> 'b) \<Rightarrow> 'a io \<Rightarrow> bool" where
  "preserves g m \<longleftrightarrow> (\<forall>w. g (snd (m w)) = g w)"

text \<open>\<open>fails m\<close>: \<open>m\<close> throws or rejects, whatever the world.\<close>

definition fails :: "'a io \<Rightarrow> bool" where
  "fails m \<longleftrightarrow> (\<forall>w. \<exists>e. fst (m w) = Inl e)"

text \<open>
  \<open>closes_on_success m\<close>: \<open>m\<close> closes the server once, as its last call, when it
  succeeds, and not at all when it fails.
\<close>

definition closes_on_success :: "'a io \<Rightarrow> bool" where
  "closes_on_success m \<longleftrightarrow>
     (\<forall>w. \<exists>xs. ServerClose \<notin> set xs \<and>
        events (snd (m w)) = events w @ xs @ (case fst (m w) of Inl e \<Rightarrow> [] | Inr x \<Rightarrow> [ServerClose]))"



text \<open>The worlds a run of \<^verbatim>\<open>build\<close> passes through, when it gets that far.\<close>

definition cleaned_world :: "env \<Rightarrow> world \<Rightarrow> world" where
  "cleaned_world env w = snd (cleaning env w)"

definition listening_world :: "env \<Rightarrow> PhenomicConfig \<Rightarrow> world \<Rightarrow> world" where
  "listening_world env config w = snd (serverStarting env config (cleaned_world env w))"

definition bundled_world :: "env \<Rightarrow> PhenomicConfig \<Rightarrow> world \<Rightarrow> world" where
  "bundled_world env config w = snd (bundling config (listening_world env config w))"

definition ingested_world :: "env \<Rightarrow> PhenomicConfig \<Rightarrow> world \<Rightarrow> world" where
  "ingested_world env config w = snd (getContent env config (bundled_world env config w))"

definition resolved_world ::
  "env \<Rightarrow> PhenomicConfig \<Rightarrow> nat \<Rightarrow> PhenomicAppType \<Rightarrow> world \<Rightarrow> world" where
  "resolved_world env config port app w =
     snd (resolvingRoutes env config port app
            (snd (console_log ''Content processed'' (ingested_world env config w))))"

subsection \<open>Composition\<close>

lemma await_Inl: "m w = (Inl e, w') \<Longrightarrow> await m f w = (Inl e, w')"
  by (simp add: await_def)

lemma await_Inr: "m w = (Inr x, w') \<Longrightarrow> await m f w = f x w'"
  by (simp add: await_def)

lemma await_throw: "await (throw e) f = throw e"
  by (rule ext) (simp add: await_def throw_def)

lemma await_return: "await (return x) f = f x"
  by (rule ext) (simp add: await_def return_def)

lemma await_assoc: "await (await m f) g = await m (\<lambda>x. await (f x) g)"
  by (rule ext) (simp add: await_def split: prod.splits sum.splits)

lemma emitsI:
  assumes "\<And>w. \<exists>xs. events (snd (m w)) = events w @ xs \<and> list_all Q xs"
  shows "emits Q m"
  using assms by (simp add: emits_def)

lemma emitsD: "emits Q m \<Longrightarrow> \<exists>xs. events (snd (m w)) = events w @ xs \<and> list_all Q xs"
  by (simp add: emits_def)

lemma emits_mono: "emits Q m \<Longrightarrow> (\<And>ev. Q ev \<Longrightarrow> Q' ev) \<Longrightarrow> emits Q' m"
  unfolding emits_def by (metis (mono_tags, lifting) list.pred_mono_strong)

lemma emits_return: "emits Q (return x)"
  by (simp add: emits_def return_def)

lemma emits_throw: "emits Q (throw e)"
  by (simp add: emits_def throw_def)

lemma emits_outcome: "emits Q (outcome r)"
  by (simp add: emits_def outcome_def)

lemma emits_Promise_all: "emits Q (Promise_all ps)"
  by (simp add: emits_def Promise_all_def)

lemma emits_emit: "Q ev \<Longrightarrow> emits Q (emit ev)"
  by (simp add: emits_def emit_def)

lemma emits_call: "Q ev \<Longrightarrow> emits Q (call ev r)"
  by (simp add: emits_def call_def)

lemma emits_call_world: "Q ev \<Longrightarrow> emits Q (\<lambda>w. call ev (g w) w)"
  by (simp add: emits_def call_def)

lemma emits_await:
  assumes "emits Q m" and "\<And>x. emits Q (f x)"
  shows "emits Q (await m f)"
proof (rule emitsI)
  fix w
  obtain r w' where mw: "m w = (r, w')" by (cases "m w")
  from emitsD [OF assms(1), of w] mw
  obtain xs where xs: "events w' = events w @ xs" "list_all Q xs" by auto
  show "\<exists>zs. events (snd (await m f w)) = events w @ zs \<and> list_all Q zs"
  proof (cases r)
    case (Inl e)
    with mw xs show ?thesis by (simp add: await_def)
  next
    case (Inr x)
    from emitsD [OF assms(2), of x w']
    obtain ys where ys: "events (snd (f x w')) = events w' @ ys" "list_all Q ys" by auto
    with mw xs Inr show ?thesis by (simp add: await_def)
  qed
qed

lemma emits_try_catch:
  assumes "emits Q m" and "\<And>e. emits Q (h e)"
  shows "emits Q (try_catch m h)"
proof (rule emitsI)
  fix w
  obtain r w' where mw: "m w = (r, w')" by (cases "m w")
  from emitsD [OF assms(1), of w] mw
  obtain xs where xs: "events w' = events w @ xs" "list_all Q xs" by auto
  show "\<exists>zs. events (snd (try_catch m h w)) = events w @ zs \<and> list_all Q zs"
  proof (cases r)
    case (Inr x)
    with mw xs show ?thesis by (simp add: try_catch_def)
  next
    case (Inl e)
    from emitsD [OF assms(2), of e w']
    obtain ys where ys: "events (snd (h e w')) = events w' @ ys" "list_all Q ys" by auto
    with mw xs Inl show ?thesis by (simp add: try_catch_def)
  qed
qed

lemma emits_start: "emits Q m \<Longrightarrow> emits Q (start m)"
  by (simp add: emits_def start_def split: prod.splits) (metis snd_conv)

lemma emits_array_map:
  assumes "\<And>x. emits Q (f x)"
  shows "emits Q (array_map f xs)"
proof (induction xs)
  case Nil
  show ?case by (simp add: emits_def)
next
  case (Cons x xs)
  have "array_map f (x # xs) = await (f x) (\<lambda>y. await (array_map f xs) (\<lambda>ys. return (y # ys)))"
    by (rule ext) (simp add: await_def return_def split: prod.splits sum.splits)
  then show ?case
    using assms Cons.IH by (simp add: emits_await emits_return)
qed

lemma emits_if: "emits Q a \<Longrightarrow> emits Q b \<Longrightarrow> emits Q (if c then a else b)"
  by simp

lemma emits_case_option:
  "emits Q a \<Longrightarrow> (\<And>y. emits Q (b y)) \<Longrightarrow> emits Q (case x of None \<Rightarrow> a | Some y \<Rightarrow> b y)"
  by (cases x) simp_all

lemma emits_case_prod: "(\<And>a b. emits Q (f a b)) \<Longrightarrow> emits Q (case p of (a, b) \<Rightarrow> f a b)"
  by (cases p) simp

lemma emits_filter:
  assumes "emits Q m" and "\<And>ev. Q ev \<Longrightarrow> \<not> P ev"
  shows "filter P (events (snd (m w))) = filter P (events w)"
proof -
  from emitsD [OF assms(1), of w]
  obtain xs where xs: "events (snd (m w)) = events w @ xs" "list_all Q xs" by auto
  from xs(2) assms(2) have "filter P xs = []"
    by (induction xs) auto
  with xs(1) show ?thesis by simp
qed

lemma preservesD: "preserves g m \<Longrightarrow> g (snd (m w)) = g w"
  by (simp add: preserves_def)

lemma preserves_return: "preserves g (return x)"
  by (simp add: preserves_def return_def)

lemma preserves_throw: "preserves g (throw e)"
  by (simp add: preserves_def throw_def)

lemma preserves_outcome: "preserves g (outcome r)"
  by (simp add: preserves_def outcome_def)

lemma preserves_Promise_all: "preserves g (Promise_all ps)"
  by (simp add: preserves_def Promise_all_def)

lemma preserves_await:
  assumes "preserves g m" and "\<And>x. preserves g (f x)"
  shows "preserves g (await m f)"
  unfolding preserves_def
proof
  fix w
  obtain r w' where mw: "m w = (r, w')" by (cases "m w")
  from preservesD [OF assms(1), of w] mw have "g w' = g w" by simp
  with mw preservesD [OF assms(2)] show "g (snd (await m f w)) = g w"
    by (cases r) (simp_all add: await_def)
qed

lemma preserves_try_catch:
  assumes "preserves g m" and "\<And>e. preserves g (h e)"
  shows "preserves g (try_catch m h)"
  unfolding preserves_def
proof
  fix w
  obtain r w' where mw: "m w = (r, w')" by (cases "m w")
  from preservesD [OF assms(1), of w] mw have "g w' = g w" by simp
  with mw preservesD [OF assms(2)] show "g (snd (try_catch m h w)) = g w"
    by (cases r) (simp_all add: try_catch_def)
qed

lemma preserves_start: "preserves g m \<Longrightarrow> preserves g (start m)"
  by (simp add: preserves_def start_def split: prod.splits) (metis snd_conv)

lemma preserves_array_map:
  assumes "\<And>x. preserves g (f x)"
  shows "preserves g (array_map f xs)"
proof (induction xs)
  case Nil
  show ?case by (simp add: preserves_def)
next
  case (Cons x xs)
  have "array_map f (x # xs) = await (f x) (\<lambda>y. await (array_map f xs) (\<lambda>ys. return (y # ys)))"
    by (rule ext) (simp add: await_def return_def split: prod.splits sum.splits)
  then show ?case
    using assms Cons.IH by (simp add: preserves_await preserves_return)
qed

lemma preserves_case_option:
  "preserves g a \<Longrightarrow> (\<And>y. preserves g (b y)) \<Longrightarrow> preserves g (case x of None \<Rightarrow> a | Some y \<Rightarrow> b y)"
  by (cases x) simp_all

lemma preserves_case_prod:
  "(\<And>a b. preserves g (f a b)) \<Longrightarrow> preserves g (case p of (a, b) \<Rightarrow> f a b)"
  by (cases p) simp

lemma preserves_if: "preserves g a \<Longrightarrow> preserves g b \<Longrightarrow> preserves g (if c then a else b)"
  by simp

text \<open>What the primitive operations leave alone.\<close>

lemma preserves_db_emit: "preserves db (emit ev)"
  by (simp add: preserves_def emit_def)

lemma preserves_db_call: "preserves db (call ev r)"
  by (simp add: preserves_def call_def)

lemma preserves_db_call_world: "preserves db (\<lambda>w. call ev (k w) w)"
  by (simp add: preserves_def call_def)

lemma preserves_db_rimraf_sync: "preserves db (rimraf_sync env p)"
  by (simp add: preserves_def rimraf_sync_def Let_def split: option.splits)

lemma preserves_db_writeFile: "preserves db (writeFile env p c)"
  by (simp add: preserves_def writeFile_def Let_def split: option.splits)

lemma preserves_db_set_process_env: "preserves db set_process_env"
  by (simp add: preserves_def set_process_env_def)

text \<open>What the primitive operations add to the trace.\<close>

lemma emits_rimraf_sync: "Q (RimrafSync p) \<Longrightarrow> emits Q (rimraf_sync env p)"
  by (simp add: emits_def rimraf_sync_def Let_def split: option.splits)

lemma emits_writeFile: "Q (WriteFile p c) \<Longrightarrow> emits Q (writeFile env p c)"
  by (simp add: emits_def writeFile_def Let_def split: option.splits)

lemma emits_set_process_env: "emits Q set_process_env"
  by (simp add: emits_def set_process_env_def)

lemma emits_db_destroy: "Q DbDestroy \<Longrightarrow> emits Q db_destroy"
  by (simp add: emits_def db_destroy_def)

lemma emits_processFile: "Q (ProcessFile (file_name file)) \<Longrightarrow> emits Q (processFile file ts cs)"
  by (simp add: emits_def processFile_def Let_def split: sum.splits prod.splits)

subsection \<open>The fan-out\<close>

text \<open>A relation between worlds that every mapper respects is respected by the whole map.\<close>

lemma pmap_next_rel:
  assumes "\<And>w. R w w" and "\<And>x w. R w (snd (mapper x w))"
  shows "R (pm_world st) (pm_world (pmap_next mapper st))"
proof (cases "pm_rejected st \<noteq> None \<or> pm_pending st = []")
  case True
  then show ?thesis using assms(1) by (auto simp: pmap_next_def)
next
  case False
  then obtain x xs where p: "pm_pending st = x # xs" by (cases "pm_pending st") auto
  obtain r w' where m: "mapper x (pm_world st) = (r, w')" by (cases "mapper x (pm_world st)")
  from assms(2) [of "pm_world st" x] m have "R (pm_world st) w'" by simp
  with False p m show ?thesis by (simp add: pmap_next_def)
qed

lemma pmap_start_rel:
  assumes "\<And>w. R w w" and "\<And>a b c. R a b \<Longrightarrow> R b c \<Longrightarrow> R a c"
    and "\<And>x w. R w (snd (mapper x w))"
  shows "R (pm_world st) (pm_world (pmap_start mapper n st))"
proof (induction n arbitrary: st)
  case 0
  show ?case by (simp add: assms(1))
next
  case (Suc n)
  show ?case
  proof (cases "pm_pending st = []")
    case True
    then show ?thesis by (simp add: assms(1))
  next
    case False
    from pmap_next_rel [of R mapper st, OF assms(1,3)] Suc.IH [of "pmap_next mapper st"] False
    show ?thesis by (auto intro: assms(2))
  qed
qed

lemma pmap_settle_rel:
  assumes "\<And>w. R w w" and "\<And>x w. R w (snd (mapper x w))"
  shows "R (pm_world st) (pm_world (pmap_settle sched mapper st))"
proof (cases "pm_in_flight st = []")
  case True
  then show ?thesis by (simp add: pmap_settle_def assms(1))
next
  case False
  let ?k = "sched (pm_settled st) mod length (pm_in_flight st)"
  obtain i r where ir: "pm_in_flight st ! ?k = (i, r)" by (cases "pm_in_flight st ! ?k")
  show ?thesis
  proof (cases r)
    case (Inl e)
    with False ir show ?thesis by (simp add: pmap_settle_def Let_def assms(1))
  next
    case (Inr v)
    let ?first = "st\<lparr>pm_in_flight := take ?k (pm_in_flight st) @ drop (Suc ?k) (pm_in_flight st),
                   pm_settled := Suc (pm_settled st), pm_resolved := pm_resolved st @ [(i, v)]\<rparr>"
    from pmap_next_rel [of R mapper ?first, OF assms] False ir Inr
    show ?thesis by (simp add: pmap_settle_def Let_def)
  qed
qed

lemma pmap_run_rel:
  assumes "\<And>w. R w w" and "\<And>a b c. R a b \<Longrightarrow> R b c \<Longrightarrow> R a c"
    and "\<And>x w. R w (snd (mapper x w))"
  shows "R (pm_world st) (snd (pmap_run sched mapper st))"
  using assms(3)
proof (induction sched mapper st rule: pmap_run.induct)
  case (1 sched mapper st)
  show ?case
  proof (cases "pm_rejected st = None \<and> pm_in_flight st \<noteq> []")
    case True
    from True "1.IH" "1.prems"
    have "R (pm_world (pmap_settle sched mapper st))
            (snd (pmap_run sched mapper (pmap_settle sched mapper st)))"
      by blast
    with pmap_settle_rel [of R mapper st sched, OF assms(1) "1.prems"] True show ?thesis
      by (subst pmap_run.simps) (auto intro: assms(2))
  next
    case False
    then show ?thesis
      by (subst pmap_run.simps) (auto simp: assms(1) split: option.splits)
  qed
qed

lemma pMap_rel:
  fixes mapper :: "'a \<Rightarrow> 'b io"
  assumes "\<And>w. R w w" and "\<And>a b c. R a b \<Longrightarrow> R b c \<Longrightarrow> R a c"
    and "\<And>x w. R w (snd (mapper x w))"
  shows "R w (snd (pMap sched input mapper c w))"
proof (cases "c = 0")
  case True
  then show ?thesis by (simp add: pMap_def assms(1))
next
  case False
  let ?init = "pmap_initial input w :: ('a, 'b) pmap_state"
  have a: "R (pm_world ?init) (pm_world (pmap_start mapper c ?init))"
    by (rule pmap_start_rel [where R = R and mapper = mapper, OF assms])
  have b: "R (pm_world (pmap_start mapper c ?init))
          (snd (pmap_run sched mapper (pmap_start mapper c ?init)))"
    by (rule pmap_run_rel [where R = R and mapper = mapper, OF assms])
  from a b have "R (pm_world ?init) (snd (pmap_run sched mapper (pmap_start mapper c ?init)))"
    by (rule assms(2))
  with False show ?thesis by (simp add: pMap_def pmap_initial_def)
qed

lemma emits_pMap:
  assumes "\<And>x. emits Q (mapper x)"
  shows "emits Q (pMap sched xs mapper c)"
proof (rule emitsI)
  fix w
  let ?R = "\<lambda>w w'. \<exists>zs. events w' = events w @ zs \<and> list_all Q zs"
  have "?R w (snd (pMap sched xs mapper c w))"
  proof (rule pMap_rel [of ?R])
    show "?R w w" for w by simp
    show "?R a b \<Longrightarrow> ?R b c \<Longrightarrow> ?R a c" for a b c
      by (elim exE conjE, rule_tac x = "zs @ zsa" in exI) simp
    show "?R w (snd (mapper x w))" for x w
      using emitsD [OF assms, of x w] .
  qed
  then show "\<exists>zs. events (snd (pMap sched xs mapper c w)) = events w @ zs \<and> list_all Q zs" .
qed

lemma preserves_pMap:
  assumes "\<And>x. preserves g (mapper x)"
  shows "preserves g (pMap sched xs mapper c)"
  unfolding preserves_def
proof
  fix w
  show "g (snd (pMap sched xs mapper c w)) = g w"
    by (rule pMap_rel [of "\<lambda>w w'. g w' = g w"]) (simp_all add: preservesD [OF assms])
qed

subsection \<open>How many mappers are in flight\<close>





subsection \<open>The fan-out over no URL, and with a mapper that always throws\<close>

lemma pmap_start_no_pending: "pm_pending st = [] \<Longrightarrow> pmap_start mapper n st = st"
  by (cases n) simp_all

lemma pMap_Nil: "0 < c \<Longrightarrow> pMap sched [] mapper c w = (Inr [], w)"
  by (simp add: pMap_def pmap_start_no_pending pmap_initial_def pmap_run.simps)

lemma pmap_next_throwing:
  assumes "\<And>x w. mapper x w = (Inl e, w)"
    and "\<forall>p\<in>set (pm_in_flight st). snd p = Inl e"
  shows "pm_world (pmap_next mapper st) = pm_world st \<and>
         pm_rejected (pmap_next mapper st) = pm_rejected st \<and>
         (\<forall>p\<in>set (pm_in_flight (pmap_next mapper st)). snd p = Inl e) \<and>
         (pm_rejected st = None \<longrightarrow> pm_pending st \<noteq> [] \<longrightarrow>
            pm_in_flight (pmap_next mapper st) \<noteq> []) \<and>
         (pm_in_flight st \<noteq> [] \<longrightarrow> pm_in_flight (pmap_next mapper st) \<noteq> [])"
  using assms by (auto simp: pmap_next_def split: list.splits)

lemma pmap_start_throwing:
  assumes "\<And>x w. mapper x w = (Inl e, w)"
    and "\<forall>p\<in>set (pm_in_flight st). snd p = Inl e"
  shows "pm_world (pmap_start mapper n st) = pm_world st \<and>
         pm_rejected (pmap_start mapper n st) = pm_rejected st \<and>
         (\<forall>p\<in>set (pm_in_flight (pmap_start mapper n st)). snd p = Inl e) \<and>
         (pm_in_flight st \<noteq> [] \<longrightarrow> pm_in_flight (pmap_start mapper n st) \<noteq> [])"
  using assms(2)
proof (induction n arbitrary: st)
  case 0
  then show ?case by simp
next
  case (Suc n)
  show ?case
  proof (cases "pm_pending st = []")
    case True
    with Suc.prems show ?thesis by simp
  next
    case False
    note nx = pmap_next_throwing [of mapper e st, OF assms(1) Suc.prems]
    from nx have "\<forall>p\<in>set (pm_in_flight (pmap_next mapper st)). snd p = Inl e" by blast
    from Suc.IH [OF this] nx False show ?thesis by simp
  qed
qed

lemma pMap_throwing:
  fixes mapper :: "'a \<Rightarrow> 'b io"
  assumes "\<And>x w. mapper x w = (Inl e, w)" and "0 < c" and "input \<noteq> []"
  shows "pMap sched input mapper c w = (Inl e, w)"
proof -
  let ?init = "pmap_initial input w :: ('a, 'b) pmap_state"
  let ?first = "pmap_next mapper ?init"
  let ?st = "pmap_start mapper c ?init"
  obtain n where c: "c = Suc n" using assms(2) by (cases c) auto
  have s0: "\<forall>p\<in>set (pm_in_flight ?init). snd p = Inl e" by (simp add: pmap_initial_def)
  note nx = pmap_next_throwing [of mapper e ?init, OF assms(1) s0]
  from nx assms(3) have n1: "pm_in_flight ?first \<noteq> []" "pm_world ?first = w"
    "pm_rejected ?first = None" "\<forall>p\<in>set (pm_in_flight ?first). snd p = Inl e"
    by (simp_all add: pmap_initial_def)
  have st: "?st = pmap_start mapper n ?first"
    using c assms(3) by (simp add: pmap_initial_def)
  note after = pmap_start_throwing [of mapper e ?first n, OF assms(1) n1(4)]
  have s: "pm_world ?st = w" "pm_rejected ?st = None" "pm_in_flight ?st \<noteq> []"
    "\<forall>p\<in>set (pm_in_flight ?st). snd p = Inl e"
    unfolding st using after n1 by simp_all
  let ?k = "sched (pm_settled ?st) mod length (pm_in_flight ?st)"
  from s(3) have "pm_in_flight ?st ! ?k \<in> set (pm_in_flight ?st)" by simp
  with s(4) obtain i where ik: "pm_in_flight ?st ! ?k = (i, Inl e)"
    by (cases "pm_in_flight ?st ! ?k") auto
  from s ik have "pm_rejected (pmap_settle sched mapper ?st) = Some e"
    "pm_world (pmap_settle sched mapper ?st) = w"
    by (simp_all add: pmap_settle_def Let_def)
  then have "pmap_run sched mapper (pmap_settle sched mapper ?st) = (Inl e, w)"
    by (subst pmap_run.simps) simp
  with s have "pmap_run sched mapper ?st = (Inl e, w)"
    by (subst pmap_run.simps) simp
  with assms(2) show ?thesis by (simp add: pMap_def)
qed

subsection \<open>The fan-out when every mapper succeeds\<close>






subsection \<open>The phases, one by one\<close>

lemmas emits_rules =
  emits_return emits_throw emits_outcome emits_Promise_all emits_emit emits_call
  emits_call_world emits_await emits_try_catch emits_start emits_array_map emits_pMap
  emits_if emits_case_option emits_case_prod emits_rimraf_sync emits_writeFile
  emits_set_process_env emits_db_destroy emits_processFile

lemmas preserves_rules =
  preserves_return preserves_throw preserves_outcome preserves_Promise_all preserves_await
  preserves_try_catch preserves_start preserves_array_map preserves_pMap
  preserves_case_option preserves_case_prod preserves_if

lemmas preserves_db_rules =
  preserves_db_emit preserves_db_call preserves_db_call_world preserves_db_rimraf_sync
  preserves_db_writeFile preserves_db_set_process_env

lemmas collaborator_defs =
  console_log_def getPort_def createServer_def server_listen_def server_close_def
  log_warn_def getPath_def oneShot_def getContentPath_def

lemma emits_cleaning:
  assumes "\<And>s. Q (ConsoleLog s)" and "\<And>p. Q (RimrafSync p)"
  shows "emits Q (cleaning env)"
  unfolding cleaning_def collaborator_defs
  by (intro emits_rules assms)

lemma emits_serverStarting:
  assumes "Q CreateServer" and "Q GetPort" and "\<And>n. Q (Listen n)"
  shows "emits Q (serverStarting env config)"
  unfolding serverStarting_def collaborator_defs
  by (intro emits_rules assms)

lemma emits_beforeBuildHooks:
  assumes "\<And>n. Q (BeforeBuild n)"
  shows "emits Q (beforeBuildHooks config)"
  unfolding beforeBuildHooks_def
  by (intro emits_rules assms)

lemma prelude_event_simps [simp]:
  "prelude_event (ConsoleLog s)" "prelude_event (LogWarn s)" "prelude_event (RimrafSync p)"
  "prelude_event CreateServer" "prelude_event GetPort" "prelude_event (Listen n)"
  "prelude_event (BeforeBuild s)" "prelude_event (Build s)"
  "prelude_event (BuildForPrerendering s)" "prelude_event (GetPath p)"
  "prelude_event (OneShot p)" "prelude_event DbDestroy" "prelude_event (ProcessFile p)"
  "prelude_event (GetRoutes s)" "prelude_event (ResolveURLs s)"
  "\<not> prelude_event ServerClose" "\<not> prelude_event (RenderStatic l)"
  "\<not> prelude_event (WriteFile p c)"
  by (simp_all add: prelude_event_def prerender_event_def)

lemma emits_bundling: "emits prelude_event (bundling config)"
  unfolding bundling_def Let_def collaborator_defs
  by (intro emits_rules emits_beforeBuildHooks) simp_all

lemma emits_getContent: "emits prelude_event (getContent env config)"
  unfolding getContent_def Let_def collaborator_defs
  by (intro emits_rules) simp_all

lemma emits_resolvingRoutes: "emits prelude_event (resolvingRoutes env config port app)"
  unfolding resolvingRoutes_def Let_def collaborator_defs
  by (intro emits_rules) simp_all

lemma emits_prerenderFileAndDependencies:
  "emits (\<lambda>ev. ev \<noteq> ServerClose)
     (prerenderFileAndDependencies env config renderer app assets phenomicFetch location)"
  unfolding prerenderFileAndDependencies_def
  by (intro emits_rules) simp_all

lemma emits_prerendering:
  "emits (\<lambda>ev. ev \<noteq> ServerClose) (prerendering env config port renderer app assets urls)"
  unfolding prerendering_def collaborator_defs
  by (intro emits_rules emits_prerenderFileAndDependencies) simp_all

lemma preserves_db_cleaning: "preserves db (cleaning env)"
  unfolding cleaning_def collaborator_defs
  by (intro preserves_rules preserves_db_rules)

lemma preserves_db_serverStarting: "preserves db (serverStarting env config)"
  unfolding serverStarting_def collaborator_defs
  by (intro preserves_rules preserves_db_rules)

lemma preserves_db_bundling: "preserves db (bundling config)"
  unfolding bundling_def beforeBuildHooks_def Let_def collaborator_defs
  by (intro preserves_rules preserves_db_rules)

lemma preserves_db_resolvingRoutes: "preserves db (resolvingRoutes env config port app)"
  unfolding resolvingRoutes_def Let_def collaborator_defs
  by (intro preserves_rules preserves_db_rules)

lemma preserves_db_prerendering:
  "preserves db (prerendering env config port renderer app assets urls)"
  unfolding prerendering_def prerenderFileAndDependencies_def collaborator_defs
  by (intro preserves_rules preserves_db_rules)

subsection \<open>The server is closed\<close>

lemma closes_on_success_server_close: "closes_on_success server_close"
  by (simp add: closes_on_success_def server_close_def emit_def)

lemma closes_on_success_await:
  assumes "emits (\<lambda>ev. ev \<noteq> ServerClose) m" and "\<And>x. closes_on_success (f x)"
  shows "closes_on_success (await m f)"
  unfolding closes_on_success_def
proof
  fix w
  obtain r w' where mw: "m w = (r, w')" by (cases "m w")
  from emitsD [OF assms(1), of w] mw
  obtain xs where xs: "events w' = events w @ xs" "list_all (\<lambda>ev. ev \<noteq> ServerClose) xs"
    by auto
  from xs(2) have nxs: "ServerClose \<notin> set xs" by (auto simp: list_all_iff)
  show "\<exists>zs. ServerClose \<notin> set zs \<and>
          events (snd (await m f w)) =
            events w @ zs @ (case fst (await m f w) of Inl e \<Rightarrow> [] | Inr x \<Rightarrow> [ServerClose])"
  proof (cases r)
    case (Inl e)
    with mw xs(1) nxs show ?thesis by (simp add: await_def)
  next
    case (Inr x)
    from assms(2) [of x] obtain ys where ys: "ServerClose \<notin> set ys"
      "events (snd (f x w')) =
         events w' @ ys @ (case fst (f x w') of Inl e \<Rightarrow> [] | Inr x \<Rightarrow> [ServerClose])"
      unfolding closes_on_success_def by blast
    have "await m f w = f x w'" using mw Inr by (simp add: await_def)
    with ys xs(1) nxs show ?thesis
      by (intro exI [of _ "xs @ ys"]) simp
  qed
qed

lemma closes_on_success_case_prod:
  "(\<And>a b. closes_on_success (f a b)) \<Longrightarrow> closes_on_success (case p of (a, b) \<Rightarrow> f a b)"
  by (cases p) simp

lemma emits_prelude_not_close:
  "emits prelude_event m \<Longrightarrow> emits (\<lambda>ev. ev \<noteq> ServerClose) m"
  by (erule emits_mono) (simp add: prelude_event_def)

lemma closes_on_success_build_try: "closes_on_success (build_try env config port)"
  unfolding build_try_def
  by (intro closes_on_success_await closes_on_success_case_prod closes_on_success_server_close
        emits_prelude_not_close emits_bundling emits_getContent emits_resolvingRoutes
        emits_prerendering)
     (simp add: console_log_def emits_emit)

text \<open>\<^verbatim>\<open>build\<close> from the point where the server listens.\<close>

lemma build_from_listening:
  assumes "cleaning env w = (Inr (), w0)" and "serverStarting env config w0 = (Inr port, w1)"
  shows "build env config w =
           (case build_try env config port w1 of
              (Inl e, w') \<Rightarrow> (Inl e, w'\<lparr>events := events w' @ [ServerClose]\<rparr>)
            | (Inr x, w') \<Rightarrow> (Inr x, w'))"
  using assms
  by (simp add: build_def await_def try_catch_def server_close_def emit_def throw_def
        split: prod.splits sum.splits)

lemma build_events_from_listening:
  assumes "cleaning env w = (Inr (), w0)" and "serverStarting env config w0 = (Inr port, w1)"
  shows "\<exists>xs. ServerClose \<notin> set xs \<and>
           events (snd (build env config w)) = events w1 @ xs @ [ServerClose]"
proof -
  from closes_on_success_build_try [of env config port]
  obtain xs where xs: "ServerClose \<notin> set xs"
    "events (snd (build_try env config port w1)) =
       events w1 @ xs @ (case fst (build_try env config port w1) of Inl e \<Rightarrow> [] | Inr x \<Rightarrow> [ServerClose])"
    unfolding closes_on_success_def by blast
  obtain r w' where bt: "build_try env config port w1 = (r, w')"
    by (cases "build_try env config port w1")
  with xs build_from_listening [OF assms] show ?thesis
    by (cases r) auto
qed

lemma events_until_listening:
  assumes "cleaning env w = (r0, w0)" and "serverStarting env config w0 = (r1, w1)"
  shows "\<exists>ys. list_all prelude_event ys \<and> events w1 = events w @ ys"
proof -
  from emitsD [OF emits_cleaning [of prelude_event env], of w] assms(1)
  obtain as where as: "events w0 = events w @ as" "list_all prelude_event as" by auto
  from emitsD [OF emits_serverStarting [of prelude_event env config], of w0] assms(2)
  obtain bs where bs: "events w1 = events w0 @ bs" "list_all prelude_event bs" by auto
  from as bs show ?thesis by (intro exI [of _ "as @ bs"]) simp
qed

text \<open>
  C1 (as amended). In every execution of \<^verbatim>\<open>build\<close> in which the server was started
  (cleaning did not throw and a port was allocated), the server is closed exactly once
  before \<^verbatim>\<open>build\<close> returns or rejects, whether the body of the \<^verbatim>\<open>try\<close> succeeds or
  throws; and the outcome of \<^verbatim>\<open>build\<close> is the outcome of that body: on the failure path
  the error it threw, unchanged.
\<close>

theorem build_closes_started_server_once:
  assumes "cleaning env w = (Inr (), w0)" and "serverStarting env config w0 = (Inr port, w1)"
  shows "fst (build env config w) = fst (build_try env config port w1) \<and>
         count_list (events (snd (build env config w))) ServerClose =
           count_list (events w) ServerClose + 1"
proof -
  have outcome: "fst (build env config w) = fst (build_try env config port w1)"
    by (simp add: build_from_listening [OF assms] split: prod.splits sum.splits)
  from build_events_from_listening [OF assms]
  obtain xs where xs: "ServerClose \<notin> set xs"
    "events (snd (build env config w)) = events w1 @ xs @ [ServerClose]" by blast
  from events_until_listening [OF assms]
  obtain ys where ys: "list_all prelude_event ys" "events w1 = events w @ ys" by blast
  from ys(1) have "ServerClose \<notin> set ys" by (auto simp: list_all_iff)
  with xs ys(2) have "count_list (events (snd (build env config w))) ServerClose =
      count_list (events w) ServerClose + 1"
    by (simp add: count_list_0_iff)
  with outcome show ?thesis by simp
qed

lemma pmap_start_numeral:
  "pmap_start mapper (numeral k) st =
     (if pm_pending st = [] then st
      else pmap_start mapper (pred_numeral k) (pmap_next mapper st))"
  by (simp add: numeral_eq_Suc)

lemmas io_defs = return_def throw_def await_def try_catch_def emit_def call_def start_def
  outcome_def Promise_all_def rimraf_sync_def db_destroy_def processFile_def writeFile_def
  collaborator_defs pMap_def pmap_initial_def pmap_next_def pmap_settle_def pmap_run.simps
  pmap_start_numeral

lemmas build_defs = getContent_def createFetchFunction_def output_path_def
  prerenderFileAndDependencies_def cleaning_def env_or_def set_process_env_def
  serverStarting_def beforeBuildHooks_def bundling_def resolvingRoutes_def prerendering_def
  build_try_def build_def settings_def

lemmas example_defs = plugin_named_def webpack_plugin_def page_of_def react_plugin_def
  markdown_plugin_def collector_plugin_def build_only_plugin_def failing_hook_plugin_def
  prerender_only_plugin_def site_config_def full_site_def calm_env_def world0_def

theorem build_closes_started_server_once_witness:
  "cleaning calm_env world0 = (Inr (), snd (cleaning calm_env world0)) \<and>
   serverStarting calm_env (site_config ''dist'' []) (snd (cleaning calm_env world0)) =
     (Inr 3333, snd (serverStarting calm_env (site_config ''dist'' []) (snd (cleaning calm_env world0)))) \<and>
   fst (build calm_env (site_config ''dist'' []) world0) =
     Inl (Error ''a bundler is required (plugin implementing `build`)'') \<and>
   count_list (events (snd (build calm_env (site_config ''dist'' []) world0))) ServerClose = 1"
proof -
  have h1: "cleaning calm_env world0 = (Inr (), snd (cleaning calm_env world0))"
    by (simp add: io_defs build_defs example_defs)
  have h2: "serverStarting calm_env (site_config ''dist'' []) (snd (cleaning calm_env world0)) =
     (Inr 3333, snd (serverStarting calm_env (site_config ''dist'' []) (snd (cleaning calm_env world0))))"
    by (simp add: io_defs build_defs example_defs)
  have h3: "fst (build_try calm_env (site_config ''dist'' []) 3333
                  (snd (serverStarting calm_env (site_config ''dist'' []) (snd (cleaning calm_env world0))))) =
            Inl (Error ''a bundler is required (plugin implementing `build`)'')"
    by (simp add: io_defs build_defs example_defs)
  have h4: "events world0 = []"
    by (simp add: world0_def)
  from build_closes_started_server_once [OF h1 h2] h1 h2 h3 h4 show ?thesis
    by simp
qed

text \<open>
  C1 as stated fails: when \<^verbatim>\<open>getPort\<close> rejects, \<^verbatim>\<open>build\<close> rejects with that error
  before the server listens, and \<^verbatim>\<open>close\<close> is never called.
\<close>

theorem build_port_rejected_no_close:
  "fst (build (calm_env\<lparr>getPort_result := Inl (Error ''no port available'')\<rparr>)
          (full_site ''dist'' [''/'']) world0) = Inl (Error ''no port available'') \<and>
   count_list (events (snd (build (calm_env\<lparr>getPort_result := Inl (Error ''no port available'')\<rparr>)
          (full_site ''dist'' [''/'']) world0))) ServerClose = 0"
  by (simp add: io_defs build_defs example_defs)

subsection \<open>Cleaning\<close>

text \<open>What cleaning removes: \<^verbatim>\<open>dist\<close> and the paths below it, and nothing else.\<close>

lemma cleaning_fs:
  assumes "cleaning env w = (Inr (), w0)"
  shows "fs w0 q = (if q = ''dist'' \<or> starts_with q ''dist/'' then None else fs w q)"
  using assms
  by (auto simp: cleaning_def console_log_def emit_def await_def rimraf_sync_def Let_def
        split: option.splits)

lemmas world_defs = cleaned_world_def listening_world_def bundled_world_def ingested_world_def
  resolved_world_def

lemmas path_defs = path_join_def path_normalize_def

text \<open>
  C2, at the failing input. The output directory is \<^verbatim>\<open>public\<close> and holds a page of an
  earlier build. The build succeeds: it has removed \<^verbatim>\<open>dist\<close>, never
  \<^verbatim>\<open>public\<close>; the old page is still there, beside the page written by this build.
\<close>

theorem build_cleans_dist_not_outdir:
  "fst (build calm_env (full_site ''public'' [''/''])
          (world0\<lparr>fs := [''public/old.html'' \<mapsto> ''stale page'']\<rparr>)) = Inr () \<and>
   fs (snd (build calm_env (full_site ''public'' [''/''])
          (world0\<lparr>fs := [''public/old.html'' \<mapsto> ''stale page'']\<rparr>))) ''public/old.html'' =
     Some ''stale page'' \<and>
   fs (snd (build calm_env (full_site ''public'' [''/''])
          (world0\<lparr>fs := [''public/old.html'' \<mapsto> ''stale page'']\<rparr>))) ''public/index.html'' =
     Some ''<html>/'' \<and>
   filter (\<lambda>ev. case ev of RimrafSync p \<Rightarrow> True | _ \<Rightarrow> False)
     (events (snd (build calm_env (full_site ''public'' [''/''])
          (world0\<lparr>fs := [''public/old.html'' \<mapsto> ''stale page'']\<rparr>)))) = [RimrafSync ''dist'']"
  by (simp add: io_defs build_defs example_defs path_defs decodeURIComponent_def)

subsection \<open>The content store\<close>

lemma path_normalize_not_empty: "path_normalize p \<noteq> []"
  by (cases "hd p = CHR ''/''") (simp_all add: path_normalize_def Let_def)

lemma path_join_not_empty: "path_join args \<noteq> []"
  by (simp add: path_join_def Let_def path_normalize_not_empty)

lemma preserves_after_await:
  assumes "\<And>x. preserves g (f x)"
  shows "g (snd (await m f w)) = g (snd (m w))"
proof -
  obtain r w' where mw: "m w = (r, w')" by (cases "m w")
  with preservesD [OF assms] show ?thesis
    by (cases r) (simp_all add: await_def)
qed

lemma build_try_from_bundled:
  assumes "bundling config w1 = (Inr (assets, app), w2)"
  shows "build_try env config port w1 =
           await (getContent env config) (\<lambda>_.
           await (console_log ''Content processed'') (\<lambda>_.
           await (resolvingRoutes env config port app) (\<lambda>(renderer, urls).
           await (prerendering env config port renderer app assets urls) (\<lambda>_.
           server_close)))) w2"
  using assms by (simp add: build_try_def await_def)

lemma preserves_db_server_close: "preserves db server_close"
  by (simp add: server_close_def preserves_db_emit)

lemma db_after_build:
  assumes "cleaning env w = (Inr (), w0)" and "serverStarting env config w0 = (Inr port, w1)"
    and "bundling config w1 = (Inr (assets, app), w2)"
  shows "db (snd (build env config w)) = db (snd (getContent env config w2))"
proof -
  have "db (snd (build env config w)) = db (snd (build_try env config port w1))"
    by (simp add: build_from_listening [OF assms(1,2)] split: prod.splits sum.splits)
  also have "\<dots> = db (snd (getContent env config w2))"
    unfolding build_try_from_bundled [OF assms(3)]
    by (intro preserves_after_await preserves_rules preserves_db_rules
          preserves_db_resolvingRoutes preserves_db_prerendering preserves_db_server_close)
       (simp add: console_log_def preserves_db_emit)
  finally show ?thesis .
qed

lemma getContent_forgets_store:
  assumes "filter (\<lambda>item. p_transform item \<noteq> None) (plugins config) \<noteq> []"
    and "filter (\<lambda>item. p_collect item \<noteq> None) (plugins config) \<noteq> []"
    and "dir_exists env (path_join [path config, content config])"
  shows "getContent env config (w\<lparr>db := d\<rparr>) = getContent env config (w\<lparr>db := d'\<rparr>)"
  using assms
  by (simp add: getContent_def Let_def await_def try_catch_def return_def call_def
        collaborator_defs db_destroy_def path_join_not_empty)

lemma getContent_without_directory:
  assumes "filter (\<lambda>item. p_transform item \<noteq> None) (plugins config) \<noteq> []"
    and "filter (\<lambda>item. p_collect item \<noteq> None) (plugins config) \<noteq> []"
    and "\<not> dir_exists env (path_join [path config, content config])"
  shows "fst (getContent env config w) = Inr () \<and> db (snd (getContent env config w)) = db w"
  using assms
  by (simp add: getContent_def Let_def await_def try_catch_def return_def call_def emit_def
        collaborator_defs)

lemma db_until_bundled:
  assumes "cleaning env w = (r0, w0)" and "serverStarting env config w0 = (r1, w1)"
    and "bundling config w1 = (r2, w2)"
  shows "db w2 = db w"
  using preservesD [OF preserves_db_cleaning, of env w]
    preservesD [OF preserves_db_serverStarting, of env config w0]
    preservesD [OF preserves_db_bundling, of config w1] assms
  by simp

text \<open>
  C3 (as amended). When \<^verbatim>\<open>build\<close> reaches ingestion (cleaning, port allocation, hooks
  and bundling have succeeded) and a transform and a collect plugin are registered: if the
  content directory exists, the store is destroyed before the files are processed, so the
  store after the build is the one ingestion produces from any prior store \<open>d\<close>, the
  empty one included: no record survives merely because it was there before. If the
  content directory does not exist, the store is not destroyed: after the build it is the
  store of before the build.
\<close>

theorem build_rebuilds_store_of_existing_content:
  assumes "cleaning env w = (Inr (), w0)" and "serverStarting env config w0 = (Inr port, w1)"
    and "bundling config w1 = (Inr (assets, app), w2)"
    and "filter (\<lambda>item. p_transform item \<noteq> None) (plugins config) \<noteq> []"
    and "filter (\<lambda>item. p_collect item \<noteq> None) (plugins config) \<noteq> []"
  shows "db (snd (build env config w)) =
           (if dir_exists env (path_join [path config, content config])
            then db (snd (getContent env config (w2\<lparr>db := d\<rparr>)))
            else db w)"
proof (cases "dir_exists env (path_join [path config, content config])")
  case True
  have "getContent env config (w2\<lparr>db := db w2\<rparr>) = getContent env config (w2\<lparr>db := d\<rparr>)"
    by (rule getContent_forgets_store [OF assms(4,5) True])
  with True show ?thesis
    by (simp add: db_after_build [OF assms(1-3)])
next
  case False
  from getContent_without_directory [OF assms(4,5) False, of w2]
  have "db (snd (getContent env config w2)) = db w2" by simp
  with False show ?thesis
    by (simp add: db_after_build [OF assms(1-3)] db_until_bundled [OF assms(1-3)])
qed

theorem build_rebuilds_store_of_existing_content_witness:
  "cleaning calm_env (world0\<lparr>db := [''old.md'' \<mapsto> ''stale'']\<rparr>) =
     (Inr (), cleaned_world calm_env (world0\<lparr>db := [''old.md'' \<mapsto> ''stale'']\<rparr>)) \<and>
   serverStarting calm_env (full_site ''dist'' [''/''])
       (cleaned_world calm_env (world0\<lparr>db := [''old.md'' \<mapsto> ''stale'']\<rparr>)) =
     (Inr 3333,
      listening_world calm_env (full_site ''dist'' [''/'']) (world0\<lparr>db := [''old.md'' \<mapsto> ''stale'']\<rparr>)) \<and>
   bundling (full_site ''dist'' [''/''])
       (listening_world calm_env (full_site ''dist'' [''/'']) (world0\<lparr>db := [''old.md'' \<mapsto> ''stale'']\<rparr>)) =
     (Inr (Assets ''main.js'', App ''app''),
      bundled_world calm_env (full_site ''dist'' [''/'']) (world0\<lparr>db := [''old.md'' \<mapsto> ''stale'']\<rparr>)) \<and>
   filter (\<lambda>item. p_transform item \<noteq> None) (plugins (full_site ''dist'' [''/''])) \<noteq> [] \<and>
   filter (\<lambda>item. p_collect item \<noteq> None) (plugins (full_site ''dist'' [''/''])) \<noteq> [] \<and>
   dir_exists calm_env
     (path_join [path (full_site ''dist'' [''/'']), content (full_site ''dist'' [''/''])]) \<and>
   db (snd (build calm_env (full_site ''dist'' [''/''])
              (world0\<lparr>db := [''old.md'' \<mapsto> ''stale'']\<rparr>))) = [''post.md'' \<mapsto> ''<p>hello'']"
proof -
  let ?w = "world0\<lparr>db := [''old.md'' \<mapsto> ''stale'']\<rparr>"
  let ?c = "full_site ''dist'' [''/'']"
  have h1: "cleaning calm_env ?w = (Inr (), cleaned_world calm_env ?w)"
    by (simp add: world_defs io_defs build_defs example_defs)
  have h2: "serverStarting calm_env ?c (cleaned_world calm_env ?w) =
              (Inr 3333, listening_world calm_env ?c ?w)"
    by (simp add: world_defs io_defs build_defs example_defs)
  have h3: "bundling ?c (listening_world calm_env ?c ?w) =
              (Inr (Assets ''main.js'', App ''app''), bundled_world calm_env ?c ?w)"
    by (simp add: world_defs io_defs build_defs example_defs)
  have h4: "filter (\<lambda>item. p_transform item \<noteq> None) (plugins ?c) \<noteq> []"
    by (simp add: example_defs)
  have h5: "filter (\<lambda>item. p_collect item \<noteq> None) (plugins ?c) \<noteq> []"
    by (simp add: example_defs)
  have h6: "dir_exists calm_env (path_join [path ?c, content ?c])"
    by (simp add: example_defs path_defs)
  have h7: "db (snd (getContent calm_env ?c ((bundled_world calm_env ?c ?w)\<lparr>db := Map.empty\<rparr>))) =
              [''post.md'' \<mapsto> ''<p>hello'']"
    by (simp add: world_defs io_defs build_defs example_defs path_defs)
  from build_rebuilds_store_of_existing_content [OF h1 h2 h3 h4 h5, of Map.empty] h6 h7
  have "db (snd (build calm_env ?c ?w)) = [''post.md'' \<mapsto> ''<p>hello'']"
    by simp
  with h1 h2 h3 h4 h5 h6 show ?thesis by simp
qed

text \<open>
  C3 as stated fails: the content directory does not exist, the build succeeds, and the
  record that was in the store before the build is in it afterwards.
\<close>

theorem build_keeps_store_without_content_directory:
  "fst (build (calm_env\<lparr>dir_exists := (\<lambda>p. False)\<rparr>) (full_site ''dist'' [''/''])
          (world0\<lparr>db := [''old.md'' \<mapsto> ''stale'']\<rparr>)) = Inr () \<and>
   db (snd (build (calm_env\<lparr>dir_exists := (\<lambda>p. False)\<rparr>) (full_site ''dist'' [''/''])
          (world0\<lparr>db := [''old.md'' \<mapsto> ''stale'']\<rparr>))) ''old.md'' = Some ''stale''"
  by (simp add: io_defs build_defs example_defs path_defs decodeURIComponent_def)

subsection \<open>Missing capabilities\<close>

lemma failsD: "fails m \<Longrightarrow> \<exists>e. fst (m w) = Inl e"
  by (simp add: fails_def)

lemma fails_throw: "fails (throw e)"
  by (simp add: fails_def throw_def)

lemma fails_await_first: "fails m \<Longrightarrow> fails (await m f)"
  unfolding fails_def
proof
  fix w
  assume "\<forall>w. \<exists>e. fst (m w) = Inl e"
  then obtain e where "fst (m w) = Inl e" by blast
  then show "\<exists>e. fst (await m f w) = Inl e"
    by (cases "m w") (simp add: await_def)
qed

lemma fails_await_then:
  assumes "\<And>x. fails (f x)"
  shows "fails (await m f)"
  unfolding fails_def
proof
  fix w
  obtain r w' where mw: "m w = (r, w')" by (cases "m w")
  show "\<exists>e. fst (await m f w) = Inl e"
  proof (cases r)
    case (Inl e)
    with mw show ?thesis by (simp add: await_def)
  next
    case (Inr x)
    with mw failsD [OF assms, of x w'] show ?thesis by (simp add: await_def)
  qed
qed

lemma fails_try_catch:
  assumes "fails m" and "\<And>e. fails (h e)"
  shows "fails (try_catch m h)"
  unfolding fails_def
proof
  fix w
  obtain r w' where mw: "m w = (r, w')" by (cases "m w")
  from failsD [OF assms(1), of w] mw obtain e where "r = Inl e" by auto
  with mw failsD [OF assms(2), of e w'] show "\<exists>e. fst (try_catch m h w) = Inl e"
    by (simp add: try_catch_def)
qed

lemma fails_case_prod: "(\<And>a b. fails (f a b)) \<Longrightarrow> fails (case p of (a, b) \<Rightarrow> f a b)"
  by (cases p) simp

lemma emits_await_fails:
  assumes "fails m" and "emits Q m"
  shows "emits Q (await m f)"
proof -
  have "snd (await m f w) = snd (m w)" for w
    using failsD [OF assms(1), of w] by (cases "m w") (auto simp: await_def)
  with assms(2) show ?thesis by (simp add: emits_def)
qed

lemma first_item_None: "first_item xs = None \<longleftrightarrow> xs = []"
  by (cases xs) simp_all

lemma first_item_filter: "first_item (filter P xs) = Some x \<Longrightarrow> P x"
  by (induction xs) (auto split: if_splits)

lemma first_item_filter_member: "first_item (filter P xs) = Some x \<Longrightarrow> x \<in> set xs"
  by (induction xs) (auto split: if_splits)

lemma bundling_without_bundler:
  assumes "filter (\<lambda>p. p_buildForPrerendering p \<noteq> None) (plugins config) = []"
  shows "bundling config =
           await (beforeBuildHooks config)
             (\<lambda>_. throw (Error ''a bundler is required (plugin implementing `build`)''))"
  using assms by (simp add: bundling_def)

text \<open>No plugin supplies the bundler capability: none has both of its callables.\<close>

lemma bundling_without_whole_bundler:
  assumes "\<forall>p\<in>set (plugins config). p_build p = None \<or> p_buildForPrerendering p = None"
  shows "bundling config =
           await (beforeBuildHooks config)
             (\<lambda>_. throw (Error ''a bundler is required (plugin implementing `build`)''))"
proof (cases "first_item (filter (\<lambda>p. p_buildForPrerendering p \<noteq> None) (plugins config))")
  case None
  then show ?thesis by (simp add: bundling_def)
next
  case (Some b)
  from first_item_filter [OF Some] first_item_filter_member [OF Some] assms
  have "p_build b = None" by auto
  with Some show ?thesis by (simp add: bundling_def)
qed

lemma resolvingRoutes_without_renderer:
  assumes "filter (\<lambda>p. p_getRoutes p \<noteq> None) (plugins config) = []"
  shows "resolvingRoutes env config port app =
           throw (Error ''a renderer is required (plugin implementing `getRoutes`)'')"
  using assms by (simp add: resolvingRoutes_def)

lemma resolvingRoutes_without_resolver:
  assumes "filter (\<lambda>p. p_getRoutes p \<noteq> None) (plugins config) \<noteq> []"
    and "filter (\<lambda>p. p_resolveURLs p \<noteq> None) (plugins config) = []"
  shows "resolvingRoutes env config port app =
           throw (Error ''an urls-resolver is required (plugin implementing resolveURLs)'')"
proof -
  obtain r where r: "first_item (filter (\<lambda>p. p_getRoutes p \<noteq> None) (plugins config)) = Some r"
    using assms(1) by (cases "filter (\<lambda>p. p_getRoutes p \<noteq> None) (plugins config)") auto
  from first_item_filter [OF r] obtain g where "p_getRoutes r = Some g" by auto
  with r assms(2) show ?thesis by (simp add: resolvingRoutes_def)
qed

lemma fails_bundling_without_bundler:
  assumes "\<forall>p\<in>set (plugins config). p_build p = None \<or> p_buildForPrerendering p = None"
  shows "fails (bundling config)"
  unfolding bundling_without_whole_bundler [OF assms]
  by (intro fails_await_then fails_throw)

lemma fails_resolvingRoutes:
  assumes "filter (\<lambda>p. p_getRoutes p \<noteq> None) (plugins config) = [] \<or>
           filter (\<lambda>p. p_resolveURLs p \<noteq> None) (plugins config) = []"
  shows "fails (resolvingRoutes env config port app)"
proof (cases "filter (\<lambda>p. p_getRoutes p \<noteq> None) (plugins config) = []")
  case True
  then show ?thesis by (simp add: resolvingRoutes_without_renderer fails_throw)
next
  case False
  with assms show ?thesis by (simp add: resolvingRoutes_without_resolver fails_throw)
qed

lemma build_try_missing_singleton:
  assumes "(\<forall>p\<in>set (plugins config). p_build p = None \<or> p_buildForPrerendering p = None) \<or>
           filter (\<lambda>p. p_getRoutes p \<noteq> None) (plugins config) = [] \<or>
           filter (\<lambda>p. p_resolveURLs p \<noteq> None) (plugins config) = []"
  shows "fails (build_try env config port) \<and> emits prelude_event (build_try env config port)"
proof (cases "\<forall>p\<in>set (plugins config). p_build p = None \<or> p_buildForPrerendering p = None")
  case True
  from fails_bundling_without_bundler [OF True] show ?thesis
    unfolding build_try_def
    by (intro conjI fails_await_first emits_await_fails emits_bundling)
next
  case False
  with assms have rr: "fails (resolvingRoutes env config port app)" for app
    by (intro fails_resolvingRoutes) simp
  have "fails (build_try env config port)"
    unfolding build_try_def
    by (intro fails_await_then fails_case_prod fails_await_first rr)
  moreover have "emits prelude_event (build_try env config port)"
    unfolding build_try_def
    by (intro emits_await emits_case_prod emits_bundling emits_getContent
          emits_await_fails [OF rr] emits_resolvingRoutes)
       (simp add: console_log_def emits_emit)
  ultimately show ?thesis ..
qed

lemma build_missing_singleton:
  assumes "(\<forall>p\<in>set (plugins config). p_build p = None \<or> p_buildForPrerendering p = None) \<or>
           filter (\<lambda>p. p_getRoutes p \<noteq> None) (plugins config) = [] \<or>
           filter (\<lambda>p. p_resolveURLs p \<noteq> None) (plugins config) = []"
  shows "fails (build env config)"
    and "emits (\<lambda>ev. \<not> prerender_event ev) (build env config)"
proof -
  note bt = build_try_missing_singleton [OF assms]
  show "fails (build env config)"
    unfolding build_def
    by (intro fails_await_then fails_try_catch fails_throw) (simp add: bt)
  have "emits (\<lambda>ev. \<not> prerender_event ev) (build_try env config port)" for port
    using bt [of env port] by (auto elim: emits_mono simp: prelude_event_def)
  then show "emits (\<lambda>ev. \<not> prerender_event ev) (build env config)"
    unfolding build_def server_close_def
    by (intro emits_await emits_try_catch emits_cleaning emits_serverStarting emits_emit
          emits_throw)
       (simp_all add: prerender_event_def)
qed

lemma bundling_succeeds_has_bundler:
  assumes "bundling config w1 = (Inr x, w2)"
  shows "\<not> (\<forall>p\<in>set (plugins config). p_build p = None \<or> p_buildForPrerendering p = None)"
proof
  assume "\<forall>p\<in>set (plugins config). p_build p = None \<or> p_buildForPrerendering p = None"
  from failsD [OF fails_bundling_without_bundler [OF this], of w1] assms show False by simp
qed

lemma build_error_after_ingestion:
  assumes "cleaning env w = (Inr (), w0)" and "serverStarting env config w0 = (Inr port, w1)"
    and "bundling config w1 = (Inr (assets, app), w2)"
    and "getContent env config w2 = (Inr (), w3)"
    and "resolvingRoutes env config port app = throw e"
  shows "fst (build env config w) = Inl e"
  by (simp add: build_from_listening [OF assms(1,2)] build_try_from_bundled [OF assms(3)]
        assms(4,5) await_def console_log_def emit_def throw_def)

lemma build_error_after_hooks:
  assumes "cleaning env w = (Inr (), w0)" and "serverStarting env config w0 = (Inr port, w1)"
    and "beforeBuildHooks config w1 = (Inr us, wh)"
    and "filter (\<lambda>p. p_buildForPrerendering p \<noteq> None) (plugins config) = []"
  shows "build env config w =
           (Inl (Error ''a bundler is required (plugin implementing `build`)''),
            wh\<lparr>events := events wh @ [ServerClose]\<rparr>)"
  by (simp add: build_from_listening [OF assms(1,2)] build_try_def
        bundling_without_bundler [OF assms(4)] assms(3) await_def throw_def)

lemma build_error_without_whole_bundler:
  assumes "cleaning env w = (Inr (), w0)" and "serverStarting env config w0 = (Inr port, w1)"
    and "beforeBuildHooks config w1 = (Inr us, wh)"
    and "\<forall>p\<in>set (plugins config). p_build p = None \<or> p_buildForPrerendering p = None"
  shows "fst (build env config w) =
           Inl (Error ''a bundler is required (plugin implementing `build`)'')"
  by (simp add: build_from_listening [OF assms(1,2)] build_try_def
        bundling_without_whole_bundler [OF assms(4)] assms(3) await_def throw_def)

text \<open>
  C4 (as amended). For every plugin list in which no plugin supplies the bundler
  capability (none has both \<^verbatim>\<open>build\<close> and \<^verbatim>\<open>buildForPrerendering\<close>: so when none
  exposes \<^verbatim>\<open>buildForPrerendering\<close>, and when none implements \<^verbatim>\<open>build\<close>), or none
  exposes \<^verbatim>\<open>getRoutes\<close>, or none exposes \<^verbatim>\<open>resolveURLs\<close>, \<^verbatim>\<open>build\<close> fails, and it
  makes no call of \<^verbatim>\<open>renderStatic\<close> and
  no write of an output file. The error is the one that names the missing capability
  whenever the phases before the check have succeeded: the bundler error once cleaning,
  port allocation and the \<^verbatim>\<open>beforeBuild\<close> hooks have; the renderer error, or the
  URL-resolver error when a plugin with \<^verbatim>\<open>getRoutes\<close> exists, once bundling and ingestion
  have as well.
\<close>

theorem build_fails_before_prerender_without_singleton:
  assumes "(\<forall>p\<in>set (plugins config). p_build p = None \<or> p_buildForPrerendering p = None) \<or>
           filter (\<lambda>p. p_getRoutes p \<noteq> None) (plugins config) = [] \<or>
           filter (\<lambda>p. p_resolveURLs p \<noteq> None) (plugins config) = []"
  shows "(\<exists>e. fst (build env config w) = Inl e) \<and>
         filter prerender_event (events (snd (build env config w))) =
           filter prerender_event (events w) \<and>
         (cleaning env w = (Inr (), w0) \<longrightarrow> serverStarting env config w0 = (Inr port, w1) \<longrightarrow>
            (beforeBuildHooks config w1 = (Inr us, wh) \<longrightarrow>
             (\<forall>p\<in>set (plugins config). p_build p = None \<or> p_buildForPrerendering p = None) \<longrightarrow>
               fst (build env config w) =
                 Inl (Error ''a bundler is required (plugin implementing `build`)'')) \<and>
            (bundling config w1 = (Inr (assets, app), w2) \<longrightarrow>
             getContent env config w2 = (Inr (), w3) \<longrightarrow>
               fst (build env config w) =
                 Inl (Error
                   (if filter (\<lambda>p. p_getRoutes p \<noteq> None) (plugins config) = []
                    then ''a renderer is required (plugin implementing `getRoutes`)''
                    else ''an urls-resolver is required (plugin implementing resolveURLs)''))))"
proof (intro conjI impI)
  show "\<exists>e. fst (build env config w) = Inl e"
    by (rule failsD [OF build_missing_singleton(1) [OF assms]])
  show "filter prerender_event (events (snd (build env config w))) =
          filter prerender_event (events w)"
    by (rule emits_filter [OF build_missing_singleton(2) [OF assms]])
next
  assume "cleaning env w = (Inr (), w0)" "serverStarting env config w0 = (Inr port, w1)"
    "beforeBuildHooks config w1 = (Inr us, wh)"
    "\<forall>p\<in>set (plugins config). p_build p = None \<or> p_buildForPrerendering p = None"
  then show "fst (build env config w) =
      Inl (Error ''a bundler is required (plugin implementing `build`)'')"
    by (rule build_error_without_whole_bundler)
next
  assume reach: "cleaning env w = (Inr (), w0)" "serverStarting env config w0 = (Inr port, w1)"
    "bundling config w1 = (Inr (assets, app), w2)" "getContent env config w2 = (Inr (), w3)"
  show "fst (build env config w) =
      Inl (Error
        (if filter (\<lambda>p. p_getRoutes p \<noteq> None) (plugins config) = []
         then ''a renderer is required (plugin implementing `getRoutes`)''
         else ''an urls-resolver is required (plugin implementing resolveURLs)''))"
  proof (cases "filter (\<lambda>p. p_getRoutes p \<noteq> None) (plugins config) = []")
    case True
    with build_error_after_ingestion [OF reach resolvingRoutes_without_renderer [OF True]]
    show ?thesis by simp
  next
    case False
    with assms bundling_succeeds_has_bundler [OF reach(3)]
    have "filter (\<lambda>p. p_resolveURLs p \<noteq> None) (plugins config) = []" by simp
    from build_error_after_ingestion [OF reach resolvingRoutes_without_resolver [OF False this]]
      False
    show ?thesis by simp
  qed
qed

theorem build_fails_before_prerender_without_singleton_witness:
  "filter (\<lambda>p. p_getRoutes p \<noteq> None)
     (plugins (site_config ''dist'' [webpack_plugin, markdown_plugin, collector_plugin])) = [] \<and>
   cleaning calm_env world0 = (Inr (), cleaned_world calm_env world0) \<and>
   serverStarting calm_env (site_config ''dist'' [webpack_plugin, markdown_plugin, collector_plugin])
       (cleaned_world calm_env world0) =
     (Inr 3333,
      listening_world calm_env
        (site_config ''dist'' [webpack_plugin, markdown_plugin, collector_plugin]) world0) \<and>
   bundling (site_config ''dist'' [webpack_plugin, markdown_plugin, collector_plugin])
       (listening_world calm_env
          (site_config ''dist'' [webpack_plugin, markdown_plugin, collector_plugin]) world0) =
     (Inr (Assets ''main.js'', App ''app''),
      bundled_world calm_env
        (site_config ''dist'' [webpack_plugin, markdown_plugin, collector_plugin]) world0) \<and>
   getContent calm_env (site_config ''dist'' [webpack_plugin, markdown_plugin, collector_plugin])
       (bundled_world calm_env
          (site_config ''dist'' [webpack_plugin, markdown_plugin, collector_plugin]) world0) =
     (Inr (),
      ingested_world calm_env
        (site_config ''dist'' [webpack_plugin, markdown_plugin, collector_plugin]) world0) \<and>
   fst (build calm_env (site_config ''dist'' [webpack_plugin, markdown_plugin, collector_plugin])
          world0) =
     Inl (Error ''a renderer is required (plugin implementing `getRoutes`)'') \<and>
   filter prerender_event
     (events (snd (build calm_env
        (site_config ''dist'' [webpack_plugin, markdown_plugin, collector_plugin]) world0))) = [] \<and>
   filter (\<lambda>p. p_build p \<noteq> None)
     (plugins (site_config ''dist'' [prerender_only_plugin, react_plugin [''/'']])) = [] \<and>
   fst (build calm_env (site_config ''dist'' [prerender_only_plugin, react_plugin [''/'']])
          world0) =
     Inl (Error ''a bundler is required (plugin implementing `build`)'')"
proof -
  let ?c = "site_config ''dist'' [webpack_plugin, markdown_plugin, collector_plugin]"
  let ?d = "site_config ''dist'' [prerender_only_plugin, react_plugin [''/'']]"
  have h0: "filter (\<lambda>p. p_getRoutes p \<noteq> None) (plugins ?c) = []"
    by (simp add: example_defs)
  have h1: "cleaning calm_env world0 = (Inr (), cleaned_world calm_env world0)"
    by (simp add: world_defs io_defs build_defs example_defs)
  have h2: "serverStarting calm_env ?c (cleaned_world calm_env world0) =
              (Inr 3333, listening_world calm_env ?c world0)"
    by (simp add: world_defs io_defs build_defs example_defs)
  have h3: "bundling ?c (listening_world calm_env ?c world0) =
              (Inr (Assets ''main.js'', App ''app''), bundled_world calm_env ?c world0)"
    by (simp add: world_defs io_defs build_defs example_defs)
  have h4: "getContent calm_env ?c (bundled_world calm_env ?c world0) =
              (Inr (), ingested_world calm_env ?c world0)"
    by (simp add: world_defs io_defs build_defs example_defs path_defs)
  have h5: "events world0 = []"
    by (simp add: world0_def)
  from build_fails_before_prerender_without_singleton
         [of ?c calm_env world0 "cleaned_world calm_env world0" 3333
            "listening_world calm_env ?c world0" "[]" world0
            "Assets ''main.js''" "App ''app''" "bundled_world calm_env ?c world0"
            "ingested_world calm_env ?c world0"]
    h0 h1 h2 h3 h4 h5
  have a: "fst (build calm_env ?c world0) =
             Inl (Error ''a renderer is required (plugin implementing `getRoutes`)'') \<and>
           filter prerender_event (events (snd (build calm_env ?c world0))) = []"
    by simp
  have g0: "\<forall>p\<in>set (plugins ?d). p_build p = None \<or> p_buildForPrerendering p = None"
    by (simp add: example_defs)
  have g1: "filter (\<lambda>p. p_build p \<noteq> None) (plugins ?d) = []"
    by (simp add: example_defs)
  have g2: "serverStarting calm_env ?d (cleaned_world calm_env world0) =
              (Inr 3333, listening_world calm_env ?d world0)"
    by (simp add: world_defs io_defs build_defs example_defs)
  have g3: "beforeBuildHooks ?d (listening_world calm_env ?d world0) =
              (Inr [(), ()], listening_world calm_env ?d world0)"
    by (simp add: world_defs io_defs build_defs example_defs)
  from build_fails_before_prerender_without_singleton
         [of ?d calm_env world0 "cleaned_world calm_env world0" 3333
            "listening_world calm_env ?d world0" "[(), ()]" "listening_world calm_env ?d world0"]
    g0 h1 g2 g3
  have b: "fst (build calm_env ?d world0) =
             Inl (Error ''a bundler is required (plugin implementing `build`)'')"
    by simp
  from a b h0 h1 h2 h3 h4 g1 show ?thesis by simp
qed

text \<open>
  C4 as stated fails: no plugin of this list supplies \<^verbatim>\<open>renderStatic\<close>, the renderer's
  second capability, and no URL is resolved: the build does not fail.
\<close>

theorem build_succeeds_without_renderStatic:
  "filter (\<lambda>p. p_renderStatic p \<noteq> None)
     (plugins (site_config ''dist''
        [webpack_plugin, (react_plugin [])\<lparr>p_renderStatic := None\<rparr>, markdown_plugin,
         collector_plugin])) = [] \<and>
   fst (build calm_env
          (site_config ''dist''
             [webpack_plugin, (react_plugin [])\<lparr>p_renderStatic := None\<rparr>, markdown_plugin,
              collector_plugin])
          world0) = Inr ()"
  by (simp add: io_defs build_defs example_defs path_defs)

subsection \<open>Ingestion without a transformer or a collector\<close>

lemma getContent_without_transformer:
  assumes "filter (\<lambda>item. p_transform item \<noteq> None) (plugins config) = []"
  shows "getContent env config = throw (Error ''Phenomic expects at least a transform plugin'')"
  using assms by (simp add: getContent_def)

lemma getContent_without_collector:
  assumes "filter (\<lambda>item. p_transform item \<noteq> None) (plugins config) \<noteq> []"
    and "filter (\<lambda>item. p_collect item \<noteq> None) (plugins config) = []"
  shows "getContent env config = throw (Error ''Phenomic expects at least a collector plugin'')"
  using assms by (simp add: getContent_def)

lemma build_error_at_ingestion:
  assumes "cleaning env w = (Inr (), w0)" and "serverStarting env config w0 = (Inr port, w1)"
    and "bundling config w1 = (Inr (assets, app), w2)"
    and "getContent env config = throw e"
  shows "build env config w = (Inl e, w2\<lparr>events := events w2 @ [ServerClose]\<rparr>)"
  by (simp add: build_from_listening [OF assms(1,2)] build_try_from_bundled [OF assms(3)]
        assms(4) await_def throw_def)

lemma events_until_bundled:
  assumes "cleaning env w = (r0, w0)" and "serverStarting env config w0 = (r1, w1)"
    and "bundling config w1 = (r2, w2)"
  shows "\<exists>ys. list_all prelude_event ys \<and> events w2 = events w @ ys"
proof -
  from events_until_listening [OF assms(1,2)]
  obtain as where as: "list_all prelude_event as" "events w1 = events w @ as" by blast
  from emitsD [OF emits_bundling, of config w1] assms(3)
  obtain bs where bs: "events w2 = events w1 @ bs" "list_all prelude_event bs" by auto
  from as bs show ?thesis by (intro exI [of _ "as @ bs"]) simp
qed

lemma no_writes_in_prelude:
  assumes "list_all prelude_event ys"
  shows "filter write_event (xs @ ys @ [ServerClose]) = filter write_event xs"
proof -
  from assms have "filter write_event ys = []"
    by (induction ys) (auto simp: prelude_event_def prerender_event_def write_event_def
          split: event.splits)
  then show ?thesis by (simp add: write_event_def)
qed

text \<open>
  C5 (as amended). When \<^verbatim>\<open>build\<close> reaches ingestion (cleaning, port allocation, hooks
  and bundling have succeeded): with no plugin exposing \<^verbatim>\<open>transform\<close> it fails with the
  error "Phenomic expects at least a transform plugin"; with a transform plugin but no
  plugin exposing \<^verbatim>\<open>collect\<close> it fails with "Phenomic expects at least a collector
  plugin"; and in both cases the orchestrator has made no call of \<^verbatim>\<open>writeFile\<close> up to
  that failure.
\<close>

theorem build_fails_at_ingestion_without_chain:
  assumes "cleaning env w = (Inr (), w0)" and "serverStarting env config w0 = (Inr port, w1)"
    and "bundling config w1 = (Inr (assets, app), w2)"
    and "filter (\<lambda>item. p_transform item \<noteq> None) (plugins config) = [] \<or>
         filter (\<lambda>item. p_collect item \<noteq> None) (plugins config) = []"
  shows "fst (build env config w) =
           Inl (Error
             (if filter (\<lambda>item. p_transform item \<noteq> None) (plugins config) = []
              then ''Phenomic expects at least a transform plugin''
              else ''Phenomic expects at least a collector plugin'')) \<and>
         filter write_event (events (snd (build env config w))) =
           filter write_event (events w)"
proof -
  define e where "e =
    Error (if filter (\<lambda>item. p_transform item \<noteq> None) (plugins config) = []
           then ''Phenomic expects at least a transform plugin''
           else ''Phenomic expects at least a collector plugin'')"
  have "getContent env config = throw e"
    using assms(4) getContent_without_transformer [of config env]
      getContent_without_collector [of config env]
    by (auto simp: e_def)
  from build_error_at_ingestion [OF assms(1-3) this]
  have b: "build env config w = (Inl e, w2\<lparr>events := events w2 @ [ServerClose]\<rparr>)" .
  from events_until_bundled [OF assms(1-3)]
  obtain ys where ys: "list_all prelude_event ys" "events w2 = events w @ ys" by blast
  from b ys no_writes_in_prelude [OF ys(1), of "events w"]
  show ?thesis by (simp add: e_def)
qed

theorem build_fails_at_ingestion_without_chain_witness:
  "cleaning calm_env world0 = (Inr (), cleaned_world calm_env world0) \<and>
   serverStarting calm_env (site_config ''dist'' [webpack_plugin, react_plugin [''/'']])
       (cleaned_world calm_env world0) =
     (Inr 3333,
      listening_world calm_env (site_config ''dist'' [webpack_plugin, react_plugin [''/'']]) world0) \<and>
   bundling (site_config ''dist'' [webpack_plugin, react_plugin [''/'']])
       (listening_world calm_env (site_config ''dist'' [webpack_plugin, react_plugin [''/'']]) world0) =
     (Inr (Assets ''main.js'', App ''app''),
      bundled_world calm_env (site_config ''dist'' [webpack_plugin, react_plugin [''/'']]) world0) \<and>
   filter (\<lambda>item. p_transform item \<noteq> None)
     (plugins (site_config ''dist'' [webpack_plugin, react_plugin [''/'']])) = [] \<and>
   fst (build calm_env (site_config ''dist'' [webpack_plugin, react_plugin [''/'']]) world0) =
     Inl (Error ''Phenomic expects at least a transform plugin'') \<and>
   str_includes ''Phenomic expects at least a transform plugin'' ''transform plugin'' \<and>
   filter write_event
     (events (snd (build calm_env (site_config ''dist'' [webpack_plugin, react_plugin [''/'']])
        world0))) = []"
proof -
  let ?c = "site_config ''dist'' [webpack_plugin, react_plugin [''/'']]"
  have h1: "cleaning calm_env world0 = (Inr (), cleaned_world calm_env world0)"
    by (simp add: world_defs io_defs build_defs example_defs)
  have h2: "serverStarting calm_env ?c (cleaned_world calm_env world0) =
              (Inr 3333, listening_world calm_env ?c world0)"
    by (simp add: world_defs io_defs build_defs example_defs)
  have h3: "bundling ?c (listening_world calm_env ?c world0) =
              (Inr (Assets ''main.js'', App ''app''), bundled_world calm_env ?c world0)"
    by (simp add: world_defs io_defs build_defs example_defs)
  have h4: "filter (\<lambda>item. p_transform item \<noteq> None) (plugins ?c) = []"
    by (simp add: example_defs)
  have h5: "events world0 = []"
    by (simp add: world0_def)
  have h6: "str_includes ''Phenomic expects at least a transform plugin'' ''transform plugin''"
    by simp
  from h4 have h4': "filter (\<lambda>item. p_transform item \<noteq> None) (plugins ?c) = [] \<or>
      filter (\<lambda>item. p_collect item \<noteq> None) (plugins ?c) = []" ..
  from build_fails_at_ingestion_without_chain [OF h1 h2 h3 h4'] h1 h2 h3 h4 h5 h6
  show ?thesis by simp
qed

text \<open>
  C5 as stated fails: the empty plugin list exposes neither \<^verbatim>\<open>transform\<close> nor
  \<^verbatim>\<open>collect\<close>, and the build fails at the bundler check, before ingestion, with an
  error that contains neither "transform plugin" nor "collector plugin".
\<close>

theorem build_without_plugins_fails_at_bundler:
  "filter (\<lambda>item. p_transform item \<noteq> None) (plugins (site_config ''dist'' [])) = [] \<and>
   fst (build calm_env (site_config ''dist'' []) world0) =
     Inl (Error ''a bundler is required (plugin implementing `build`)'') \<and>
   \<not> str_includes ''a bundler is required (plugin implementing `build`)'' ''transform plugin'' \<and>
   \<not> str_includes ''a bundler is required (plugin implementing `build`)'' ''collector plugin''"
  by (simp add: io_defs build_defs example_defs)

subsection \<open>Where the rendered files are written\<close>

lemma start_writeFile:
  assumes "decodeURIComponent (file_path f) = Inr d"
  shows "\<exists>r w'. await (outcome (output_path config f)) (\<lambda>target.
                    start (writeFile env target (file_contents f))) w = (Inr r, w') \<and>
                events w' = events w @ [WriteFile (path_join [outdir config, d]) (file_contents f)]"
  using assms
  by (simp add: await_def outcome_def output_path_def start_def writeFile_def Let_def
        split: option.splits)

lemma array_map_writeFile:
  assumes "\<And>f. F f = await (outcome (output_path config f)) (\<lambda>target.
                          start (writeFile env target (file_contents f)))"
    and "map (\<lambda>file. decodeURIComponent (file_path file)) files = map Inr decoded"
  shows "\<exists>ps w'. array_map F files w = (Inr ps, w') \<and>
           events w' =
             events w @
             map (\<lambda>(d, file). WriteFile (path_join [outdir config, d]) (file_contents file))
               (zip decoded files)"
  using assms(2)
proof (induction files arbitrary: decoded w)
  case Nil
  then show ?case by simp
next
  case (Cons f files)
  from Cons.prems obtain d ds where d: "decoded = d # ds"
    "decodeURIComponent (file_path f) = Inr d"
    "map (\<lambda>file. decodeURIComponent (file_path file)) files = map Inr ds"
    by (cases decoded) auto
  from start_writeFile [OF d(2), of config env w] assms(1) [of f]
  obtain r w1 where s1: "F f w = (Inr r, w1)"
    "events w1 = events w @ [WriteFile (path_join [outdir config, d]) (file_contents f)]"
    by auto
  from Cons.IH [OF d(3), of w1] obtain ps w2 where s2:
    "array_map F files w1 = (Inr ps, w2)"
    "events w2 =
       events w1 @
       map (\<lambda>(d, file). WriteFile (path_join [outdir config, d]) (file_contents file))
         (zip ds files)"
    by blast
  from s1 s2 d(1) show ?case by simp
qed

text \<open>
  C7 (as amended). When \<^verbatim>\<open>renderStatic\<close> returns files for a location and the path of
  every one of them is a well-formed percent-encoding, \<^verbatim>\<open>writeFile\<close> is called once for
  each file, in the order of the list, with the path obtained by percent-decoding the
  file's path and joining it under the configured output directory, and with the file's
  contents; these are the only writes of the call.
\<close>

theorem prerender_writes_to_decoded_paths:
  assumes "p_renderStatic renderer = Some renderStatic"
    and "renderStatic (settings config) app assets (phenomicFetch (db w)) location = Inr files"
    and "map (\<lambda>file. decodeURIComponent (file_path file)) files = map Inr decoded"
  shows "events (snd (prerenderFileAndDependencies env config (Some renderer) app assets
                        phenomicFetch location w)) =
           events w @ RenderStatic location #
           map (\<lambda>(d, file). WriteFile (path_join [outdir config, d]) (file_contents file))
             (zip decoded files)"
proof -
  let ?w1 = "w\<lparr>events := events w @ [RenderStatic location]\<rparr>"
  from array_map_writeFile [OF refl assms(3), of config env ?w1] obtain ps w2 where ps:
    "array_map
       (\<lambda>file. await (outcome (output_path config file)) (\<lambda>target.
                start (writeFile env target (file_contents file))))
       files ?w1 = (Inr ps, w2)"
    "events w2 =
       events ?w1 @
       map (\<lambda>(d, file). WriteFile (path_join [outdir config, d]) (file_contents file))
         (zip decoded files)"
    by blast
  with assms(1,2) show ?thesis
    by (simp add: prerenderFileAndDependencies_def await_def call_def Promise_all_def)
qed

theorem prerender_writes_to_decoded_paths_witness:
  "decodeURIComponent ''a%20b.html'' = Inr ''a b.html'' \<and>
   path_join [''outdir'', ''a b.html''] = ''outdir/a b.html'' \<and>
   events (snd (prerenderFileAndDependencies calm_env (site_config ''outdir'' [])
                  (Some ((plugin_named ''renderer'')
                     \<lparr>p_renderStatic := Some (\<lambda>s app assets fetch location.
                        Inr [\<lparr>file_path = ''a%20b.html'', file_contents = ''<html>''\<rparr>])\<rparr>))
                  (App ''app'') (Assets ''main.js'') (createFetchFunction calm_env 3333) ''/a b''
                  world0)) =
     [RenderStatic ''/a b'', WriteFile ''outdir/a b.html'' ''<html>'']"
proof -
  have h1: "decodeURIComponent ''a%20b.html'' = Inr ''a b.html''"
    by code_simp
  have h2: "path_join [''outdir'', ''a b.html''] = ''outdir/a b.html''"
    by (simp add: path_defs)
  have h3: "p_renderStatic ((plugin_named ''renderer'')
              \<lparr>p_renderStatic := Some (\<lambda>s app assets fetch location.
                 Inr [\<lparr>file_path = ''a%20b.html'', file_contents = ''<html>''\<rparr>])\<rparr>) =
            Some (\<lambda>s app assets fetch location.
                 Inr [\<lparr>file_path = ''a%20b.html'', file_contents = ''<html>''\<rparr>])"
    by (simp add: plugin_named_def)
  have h4: "map (\<lambda>file. decodeURIComponent (file_path file))
              [\<lparr>file_path = ''a%20b.html'', file_contents = ''<html>''\<rparr>] = map Inr [''a b.html'']"
    using h1 by simp
  from prerender_writes_to_decoded_paths
         [of _ _ "site_config ''outdir'' []" "App ''app''" "Assets ''main.js''"
            "createFetchFunction calm_env 3333" world0 "''/a b''" _ _ calm_env,
          OF h3 _ h4]
    h1 h2
  show ?thesis by (simp add: site_config_def world0_def)
qed

text \<open>
  C7 as stated fails: \<^verbatim>\<open>renderStatic\<close> returns two files; the path of the first is not
  a well-formed percent-encoding, \<^verbatim>\<open>decodeURIComponent\<close> throws, and the second file,
  whose path decodes to itself, is never written.
\<close>

theorem prerender_malformed_path_stops_writes:
  "decodeURIComponent ''b.html'' = Inr ''b.html'' \<and>
   fst (prerenderFileAndDependencies calm_env (site_config ''outdir'' [])
          (Some ((plugin_named ''renderer'')
             \<lparr>p_renderStatic := Some (\<lambda>s app assets fetch location.
                Inr [\<lparr>file_path = ''100%.html'', file_contents = ''<html>''\<rparr>,
                     \<lparr>file_path = ''b.html'', file_contents = ''<b>''\<rparr>])\<rparr>))
          (App ''app'') (Assets ''main.js'') (createFetchFunction calm_env 3333) ''/'' world0) =
     Inl (URIError ''URI malformed'') \<and>
   events (snd (prerenderFileAndDependencies calm_env (site_config ''outdir'' [])
          (Some ((plugin_named ''renderer'')
             \<lparr>p_renderStatic := Some (\<lambda>s app assets fetch location.
                Inr [\<lparr>file_path = ''100%.html'', file_contents = ''<html>''\<rparr>,
                     \<lparr>file_path = ''b.html'', file_contents = ''<b>''\<rparr>])\<rparr>))
          (App ''app'') (Assets ''main.js'') (createFetchFunction calm_env 3333) ''/'' world0)) =
     [RenderStatic ''/''] \<and>
   fs (snd (prerenderFileAndDependencies calm_env (site_config ''outdir'' [])
          (Some ((plugin_named ''renderer'')
             \<lparr>p_renderStatic := Some (\<lambda>s app assets fetch location.
                Inr [\<lparr>file_path = ''100%.html'', file_contents = ''<html>''\<rparr>,
                     \<lparr>file_path = ''b.html'', file_contents = ''<b>''\<rparr>])\<rparr>))
          (App ''app'') (Assets ''main.js'') (createFetchFunction calm_env 3333) ''/'' world0))
     ''outdir/b.html'' = None"
  by (simp add: io_defs build_defs example_defs path_defs decodeURIComponent_def hex_value_def)

subsection \<open>The fan-out of the pre-rendering\<close>










subsection \<open>After the URLs are resolved\<close>

lemma resolvingRoutes_result:
  assumes "resolvingRoutes env config port app w = (Inr (renderer, urls), w')"
  shows "first_item (filter (\<lambda>p. p_getRoutes p \<noteq> None) (plugins config)) = Some renderer \<and>
         (\<exists>n. events w' =
            events w @ [GetRoutes (name renderer), ResolveURLs n] @
            (if urls = [] then [ConsoleLog no_urls_warning] else []))"
  using assms
  by (auto simp: resolvingRoutes_def Let_def await_def call_def throw_def return_def
        console_log_def emit_def
        split: option.splits sum.splits prod.splits if_splits)

lemma build_try_from_resolved:
  assumes "bundling config w1 = (Inr (assets, app), w2)"
    and "getContent env config w2 = (Inr (), w3)"
    and "resolvingRoutes env config port app (snd (console_log ''Content processed'' w3)) =
           (Inr (renderer, urls), w4)"
  shows "build_try env config port w1 =
           await (prerendering env config port renderer app assets urls) (\<lambda>_. server_close) w4"
  using assms
  by (simp add: build_try_from_bundled [OF assms(1)] await_def console_log_def emit_def)

lemma prerendering_no_urls:
  "prerendering env config port renderer app assets [] w =
     (Inr (), w\<lparr>events := events w @ [ConsoleLog ''Pre-rendering finished'']\<rparr>)"
  by (simp add: prerendering_def pMap_Nil await_def console_log_def emit_def)

lemma prerendering_without_renderStatic:
  assumes "p_renderStatic renderer = None" and "urls \<noteq> []"
  shows "prerendering env config port renderer app assets urls w =
           (Inl (Error ''a renderer is required (plugin implementing 'renderStatic')''), w)"
proof -
  have "prerenderFileAndDependencies env config (Some renderer) app assets
          (createFetchFunction env port) location w' =
        (Inl (Error ''a renderer is required (plugin implementing 'renderStatic')''), w')"
    for location w'
    using assms(1) by (simp add: prerenderFileAndDependencies_def throw_def)
  from pMap_throwing [of _ _ 50 urls, OF this _ assms(2)] show ?thesis
    by (simp add: prerendering_def await_def)
qed

lemma events_until_ingested:
  assumes "cleaning env w = (r0, w0)" and "serverStarting env config w0 = (r1, w1)"
    and "bundling config w1 = (r2, w2)" and "getContent env config w2 = (r3, w3)"
  shows "\<exists>ys. list_all prelude_event ys \<and> events w3 = events w @ ys"
proof -
  from events_until_bundled [OF assms(1-3)]
  obtain as where as: "list_all prelude_event as" "events w2 = events w @ as" by blast
  from emitsD [OF emits_getContent, of env config w2] assms(4)
  obtain bs where bs: "events w3 = events w2 @ bs" "list_all prelude_event bs" by auto
  from as bs show ?thesis by (intro exI [of _ "as @ bs"]) simp
qed

lemma no_prerender_in_prelude:
  assumes "list_all prelude_event ys"
  shows "filter prerender_event ys = []"
  using assms by (induction ys) (auto simp: prelude_event_def)

text \<open>
  C8. If \<^verbatim>\<open>resolveURLs\<close> returns the empty list (the build has got that far: cleaning,
  port allocation, bundling, ingestion and route resolution have succeeded), \<^verbatim>\<open>build\<close>
  completes successfully. After ingestion its calls are exactly: the progress message,
  \<^verbatim>\<open>getRoutes\<close>, \<^verbatim>\<open>resolveURLs\<close>, the warning, with the text of lines 186-190, that
  no URL was resolved, the message that pre-rendering has finished, and the close of the
  server. No \<^verbatim>\<open>renderStatic\<close> is called and no file is written in the whole build.
\<close>

theorem build_succeeds_with_warning_on_no_urls:
  assumes "cleaning env w = (Inr (), w0)" and "serverStarting env config w0 = (Inr port, w1)"
    and "bundling config w1 = (Inr (assets, app), w2)"
    and "getContent env config w2 = (Inr (), w3)"
    and "resolvingRoutes env config port app (snd (console_log ''Content processed'' w3)) =
           (Inr (renderer, []), w4)"
  shows "fst (build env config w) = Inr () \<and>
         (\<exists>n. events (snd (build env config w)) =
            events w3 @
            [ConsoleLog ''Content processed'', GetRoutes (name renderer), ResolveURLs n,
             ConsoleLog
               ''(warning) No URLs resolved. You should probably double-check your routes. If you are using a single '*' route, you need to add an '/' to get a least a static entry point.'',
             ConsoleLog ''Pre-rendering finished'', ServerClose]) \<and>
         filter prerender_event (events (snd (build env config w))) =
           filter prerender_event (events w)"
proof -
  have b: "build env config w =
      (Inr (), w4\<lparr>events := events w4 @ [ConsoleLog ''Pre-rendering finished'', ServerClose]\<rparr>)"
    by (simp add: build_from_listening [OF assms(1,2)] build_try_from_resolved [OF assms(3-5)]
          prerendering_no_urls await_def server_close_def emit_def)
  from resolvingRoutes_result [OF assms(5)] obtain n where n:
    "events w4 =
       events w3 @ [ConsoleLog ''Content processed'', GetRoutes (name renderer), ResolveURLs n,
                    ConsoleLog no_urls_warning]"
    by (auto simp: console_log_def emit_def)
  from events_until_ingested [OF assms(1-4)]
  obtain ys where ys: "list_all prelude_event ys" "events w3 = events w @ ys" by blast
  from b n have ev: "events (snd (build env config w)) =
      events w3 @
      [ConsoleLog ''Content processed'', GetRoutes (name renderer), ResolveURLs n,
       ConsoleLog no_urls_warning, ConsoleLog ''Pre-rendering finished'', ServerClose]"
    by simp
  with ys no_prerender_in_prelude [OF ys(1)]
  have "filter prerender_event (events (snd (build env config w))) =
      filter prerender_event (events w)"
    by (simp add: prerender_event_def)
  with b ev show ?thesis by (auto simp: no_urls_warning_def)
qed

theorem build_succeeds_with_warning_on_no_urls_witness:
  "cleaning calm_env world0 = (Inr (), cleaned_world calm_env world0) \<and>
   serverStarting calm_env (full_site ''dist'' []) (cleaned_world calm_env world0) =
     (Inr 3333, listening_world calm_env (full_site ''dist'' []) world0) \<and>
   bundling (full_site ''dist'' []) (listening_world calm_env (full_site ''dist'' []) world0) =
     (Inr (Assets ''main.js'', App ''app''), bundled_world calm_env (full_site ''dist'' []) world0) \<and>
   getContent calm_env (full_site ''dist'' []) (bundled_world calm_env (full_site ''dist'' []) world0) =
     (Inr (), ingested_world calm_env (full_site ''dist'' []) world0) \<and>
   resolvingRoutes calm_env (full_site ''dist'' []) 3333 (App ''app'')
       (snd (console_log ''Content processed''
               (ingested_world calm_env (full_site ''dist'' []) world0))) =
     (Inr (react_plugin [], []),
      resolved_world calm_env (full_site ''dist'' []) 3333 (App ''app'') world0) \<and>
   fst (build calm_env (full_site ''dist'' []) world0) = Inr () \<and>
   ConsoleLog
     ''(warning) No URLs resolved. You should probably double-check your routes. If you are using a single '*' route, you need to add an '/' to get a least a static entry point.''
     \<in> set (events (snd (build calm_env (full_site ''dist'' []) world0))) \<and>
   filter prerender_event (events (snd (build calm_env (full_site ''dist'' []) world0))) = [] \<and>
   count_list (events (snd (build calm_env (full_site ''dist'' []) world0))) ServerClose = 1"
proof -
  let ?c = "full_site ''dist'' []"
  have h1: "cleaning calm_env world0 = (Inr (), cleaned_world calm_env world0)"
    by (simp add: world_defs io_defs build_defs example_defs)
  have h2: "serverStarting calm_env ?c (cleaned_world calm_env world0) =
              (Inr 3333, listening_world calm_env ?c world0)"
    by (simp add: world_defs io_defs build_defs example_defs)
  have h3: "bundling ?c (listening_world calm_env ?c world0) =
              (Inr (Assets ''main.js'', App ''app''), bundled_world calm_env ?c world0)"
    by (simp add: world_defs io_defs build_defs example_defs)
  have h4: "getContent calm_env ?c (bundled_world calm_env ?c world0) =
              (Inr (), ingested_world calm_env ?c world0)"
    by (simp add: world_defs io_defs build_defs example_defs path_defs)
  have h5: "resolvingRoutes calm_env ?c 3333 (App ''app'')
              (snd (console_log ''Content processed'' (ingested_world calm_env ?c world0))) =
            (Inr (react_plugin [], []), resolved_world calm_env ?c 3333 (App ''app'') world0)"
    by (simp add: world_defs io_defs build_defs example_defs path_defs)
  have h6: "events world0 = []"
    by (simp add: world0_def)
  have h7: "count_list (events (ingested_world calm_env ?c world0)) ServerClose = 0"
    by (simp add: world_defs io_defs build_defs example_defs path_defs)
  from build_succeeds_with_warning_on_no_urls [OF h1 h2 h3 h4 h5] h6 h7
  have "fst (build calm_env ?c world0) = Inr () \<and>
        ConsoleLog
          ''(warning) No URLs resolved. You should probably double-check your routes. If you are using a single '*' route, you need to add an '/' to get a least a static entry point.''
          \<in> set (events (snd (build calm_env ?c world0))) \<and>
        filter prerender_event (events (snd (build calm_env ?c world0))) = [] \<and>
        count_list (events (snd (build calm_env ?c world0))) ServerClose = 1"
    by auto
  with h1 h2 h3 h4 h5 show ?thesis by simp
qed

text \<open>
  C10. \<^verbatim>\<open>renderStatic\<close> is looked for on the renderer (the first plugin exposing
  \<^verbatim>\<open>getRoutes\<close>) only inside the call made for each URL. For a configuration whose
  renderer lacks \<^verbatim>\<open>renderStatic\<close>, once the URLs are resolved: if there is at least one
  URL, \<^verbatim>\<open>build\<close> fails with "a renderer is required (plugin implementing
  'renderStatic')", the failure arising in the fan-out (the only call after URL resolution
  is the close of the server); if the list is empty, \<^verbatim>\<open>build\<close> succeeds.
\<close>

theorem build_checks_renderStatic_per_url:
  assumes "first_item (filter (\<lambda>p. p_getRoutes p \<noteq> None) (plugins config)) = Some r"
    and "p_renderStatic r = None"
    and "cleaning env w = (Inr (), w0)" and "serverStarting env config w0 = (Inr port, w1)"
    and "bundling config w1 = (Inr (assets, app), w2)"
    and "getContent env config w2 = (Inr (), w3)"
    and "resolvingRoutes env config port app (snd (console_log ''Content processed'' w3)) =
           (Inr (renderer, urls), w4)"
  shows "build env config w =
           (if urls = []
            then (Inr (),
                  w4\<lparr>events := events w4 @ [ConsoleLog ''Pre-rendering finished'', ServerClose]\<rparr>)
            else (Inl (Error ''a renderer is required (plugin implementing 'renderStatic')''),
                  w4\<lparr>events := events w4 @ [ServerClose]\<rparr>))"
proof -
  from resolvingRoutes_result [OF assms(7)] assms(1) have "renderer = r" by simp
  with assms(2) have none: "p_renderStatic renderer = None" by simp
  show ?thesis
  proof (cases "urls = []")
    case True
    then show ?thesis
      using assms(7)
      by (simp add: build_from_listening [OF assms(3,4)]
            build_try_from_resolved [OF assms(5,6), of port renderer "[]" w4]
            prerendering_no_urls await_def server_close_def emit_def)
  next
    case False
    then show ?thesis
      by (simp add: build_from_listening [OF assms(3,4)]
            build_try_from_resolved [OF assms(5-7)]
            prerendering_without_renderStatic [OF none False] await_def)
  qed
qed

theorem build_checks_renderStatic_per_url_witness:
  "first_item (filter (\<lambda>p. p_getRoutes p \<noteq> None)
     (plugins (site_config ''dist''
        [webpack_plugin, (react_plugin [''/''])\<lparr>p_renderStatic := None\<rparr>, markdown_plugin,
         collector_plugin]))) = Some ((react_plugin [''/''])\<lparr>p_renderStatic := None\<rparr>) \<and>
   p_renderStatic ((react_plugin [''/''])\<lparr>p_renderStatic := None\<rparr>) = None \<and>
   fst (build calm_env
          (site_config ''dist''
             [webpack_plugin, (react_plugin [''/''])\<lparr>p_renderStatic := None\<rparr>, markdown_plugin,
              collector_plugin])
          world0) =
     Inl (Error ''a renderer is required (plugin implementing 'renderStatic')'') \<and>
   fst (build calm_env
          (site_config ''dist''
             [webpack_plugin, (react_plugin [])\<lparr>p_renderStatic := None\<rparr>, markdown_plugin,
              collector_plugin])
          world0) = Inr ()"
proof -
  let ?r = "\<lambda>urls. (react_plugin urls)\<lparr>p_renderStatic := None\<rparr>"
  let ?c = "\<lambda>urls. site_config ''dist'' [webpack_plugin, ?r urls, markdown_plugin, collector_plugin]"
  have h1: "first_item (filter (\<lambda>p. p_getRoutes p \<noteq> None) (plugins (?c urls))) = Some (?r urls)"
    for urls
    by (simp add: example_defs)
  have h2: "p_renderStatic (?r urls) = None" for urls
    by simp
  have h3: "cleaning calm_env world0 = (Inr (), cleaned_world calm_env world0)"
    by (simp add: world_defs io_defs build_defs example_defs)
  have h4: "serverStarting calm_env (?c urls) (cleaned_world calm_env world0) =
              (Inr 3333, listening_world calm_env (?c urls) world0)" for urls
    by (simp add: world_defs io_defs build_defs example_defs)
  have h5: "bundling (?c urls) (listening_world calm_env (?c urls) world0) =
              (Inr (Assets ''main.js'', App ''app''), bundled_world calm_env (?c urls) world0)"
    for urls
    by (simp add: world_defs io_defs build_defs example_defs)
  have h6: "getContent calm_env (?c urls) (bundled_world calm_env (?c urls) world0) =
              (Inr (), ingested_world calm_env (?c urls) world0)" for urls
    by (simp add: world_defs io_defs build_defs example_defs path_defs)
  have h7: "resolvingRoutes calm_env (?c urls) 3333 (App ''app'')
              (snd (console_log ''Content processed'' (ingested_world calm_env (?c urls) world0))) =
            (Inr (?r urls, urls), resolved_world calm_env (?c urls) 3333 (App ''app'') world0)"
    for urls
    by (simp add: world_defs io_defs build_defs example_defs path_defs)
  from build_checks_renderStatic_per_url [OF h1 h2 h3 h4 h5 h6 h7, of "[''/'']"]
  have a: "fst (build calm_env (?c [''/'']) world0) =
      Inl (Error ''a renderer is required (plugin implementing 'renderStatic')'')"
    by simp
  from build_checks_renderStatic_per_url [OF h1 h2 h3 h4 h5 h6 h7, of "[]"]
  have b: "fst (build calm_env (?c []) world0) = Inr ()"
    by simp
  from a b h1 [of "[''/'']"] h2 [of "[''/'']"] show ?thesis by simp
qed

subsection \<open>Which plugin is the bundler\<close>

lemma filter_first_match:
  assumes "\<forall>p\<in>set pre. \<not> P p" and "P b"
  shows "first_item (filter P (pre @ b # post)) = Some b"
  using assms by (induction pre) simp_all

lemma emits_until_hooks:
  assumes "cleaning env w = (r0, w0)" and "serverStarting env config w0 = (r1, w1)"
    and "beforeBuildHooks config w1 = (r2, wh)"
  shows "filter build_event (events wh) = filter build_event (events w)"
proof -
  let ?Q = "\<lambda>ev. \<not> build_event ev"
  have "filter build_event (events w0) = filter build_event (events w)"
    using emits_filter [OF emits_cleaning [of ?Q env], of build_event w] assms(1)
    by (simp add: build_event_def)
  moreover have "filter build_event (events w1) = filter build_event (events w0)"
    using emits_filter [OF emits_serverStarting [of ?Q env config], of build_event w0] assms(2)
    by (simp add: build_event_def)
  moreover have "filter build_event (events wh) = filter build_event (events w1)"
    using emits_filter [OF emits_beforeBuildHooks [of ?Q config], of build_event w1] assms(3)
    by (simp add: build_event_def)
  ultimately show ?thesis by simp
qed

text \<open>
  C9 (as amended). When \<^verbatim>\<open>build\<close> gets as far as the bundler check (cleaning, port
  allocation and every \<^verbatim>\<open>beforeBuild\<close> hook have succeeded): the bundler is the first
  plugin in registration order that exposes \<^verbatim>\<open>buildForPrerendering\<close>: the assets and the
  application that bundling yields are those of that plugin's \<^verbatim>\<open>build\<close> and
  \<^verbatim>\<open>buildForPrerendering\<close> (and bundling fails with the error naming \<^verbatim>\<open>build\<close> if that
  plugin has no \<^verbatim>\<open>build\<close>). When no plugin exposes \<^verbatim>\<open>buildForPrerendering\<close>, the
  build fails with the error naming \<^verbatim>\<open>build\<close> and no plugin's \<^verbatim>\<open>build\<close> is called,
  whether or not some plugin implements \<^verbatim>\<open>build\<close>.
\<close>

theorem bundler_is_first_with_buildForPrerendering:
  assumes "cleaning env w = (Inr (), w0)" and "serverStarting env config w0 = (Inr port, w1)"
    and "beforeBuildHooks config w1 = (Inr us, wh)"
  shows "(plugins config = pre @ b # post \<and>
          (\<forall>p\<in>set pre. p_buildForPrerendering p = None) \<and>
          p_buildForPrerendering b = Some bfp \<longrightarrow>
            fst (bundling config w1) =
              (case p_build b of
                 None \<Rightarrow> Inl (Error ''a bundler is required (plugin implementing `build`)'')
               | Some bld \<Rightarrow>
                   (case bld (settings config) of
                      Inl e \<Rightarrow> Inl e
                    | Inr assets \<Rightarrow>
                        (case bfp (settings config) of
                           Inl e \<Rightarrow> Inl e
                         | Inr app \<Rightarrow> Inr (assets, app))))) \<and>
         (filter (\<lambda>p. p_buildForPrerendering p \<noteq> None) (plugins config) = [] \<longrightarrow>
            fst (build env config w) =
              Inl (Error ''a bundler is required (plugin implementing `build`)'') \<and>
            filter build_event (events (snd (build env config w))) =
              filter build_event (events w))"
proof (intro conjI impI)
  assume sel: "plugins config = pre @ b # post \<and>
          (\<forall>p\<in>set pre. p_buildForPrerendering p = None) \<and>
          p_buildForPrerendering b = Some bfp"
  then have "first_item (filter (\<lambda>p. p_buildForPrerendering p \<noteq> None) (plugins config)) = Some b"
    by (simp add: filter_first_match)
  with sel assms(3) show "fst (bundling config w1) =
      (case p_build b of
         None \<Rightarrow> Inl (Error ''a bundler is required (plugin implementing `build`)'')
       | Some bld \<Rightarrow>
           (case bld (settings config) of
              Inl e \<Rightarrow> Inl e
            | Inr assets \<Rightarrow>
                (case bfp (settings config) of
                   Inl e \<Rightarrow> Inl e
                 | Inr app \<Rightarrow> Inr (assets, app))))"
    by (simp add: bundling_def await_def call_def console_log_def emit_def return_def throw_def
          split: option.splits sum.splits)
next
  assume none: "filter (\<lambda>p. p_buildForPrerendering p \<noteq> None) (plugins config) = []"
  from build_error_after_hooks [OF assms none]
  show "fst (build env config w) =
      Inl (Error ''a bundler is required (plugin implementing `build`)'')"
    by simp
  from build_error_after_hooks [OF assms none] emits_until_hooks [OF assms]
  show "filter build_event (events (snd (build env config w))) = filter build_event (events w)"
    by (simp add: build_event_def)
qed

theorem bundler_is_first_with_buildForPrerendering_witness:
  "cleaning calm_env world0 = (Inr (), cleaned_world calm_env world0) \<and>
   serverStarting calm_env (site_config ''dist'' [build_only_plugin, webpack_plugin])
       (cleaned_world calm_env world0) =
     (Inr 3333,
      listening_world calm_env (site_config ''dist'' [build_only_plugin, webpack_plugin]) world0) \<and>
   beforeBuildHooks (site_config ''dist'' [build_only_plugin, webpack_plugin])
       (listening_world calm_env (site_config ''dist'' [build_only_plugin, webpack_plugin]) world0) =
     (Inr [(), ()],
      listening_world calm_env (site_config ''dist'' [build_only_plugin, webpack_plugin]) world0) \<and>
   plugins (site_config ''dist'' [build_only_plugin, webpack_plugin]) =
     [build_only_plugin] @ webpack_plugin # [] \<and>
   p_buildForPrerendering build_only_plugin = None \<and>
   p_buildForPrerendering webpack_plugin = Some (\<lambda>s. Inr (App ''app'')) \<and>
   fst (bundling (site_config ''dist'' [build_only_plugin, webpack_plugin])
          (listening_world calm_env (site_config ''dist'' [build_only_plugin, webpack_plugin]) world0)) =
     Inr (Assets ''main.js'', App ''app'') \<and>
   filter (\<lambda>p. p_buildForPrerendering p \<noteq> None)
     (plugins (site_config ''dist'' [build_only_plugin])) = [] \<and>
   fst (build calm_env (site_config ''dist'' [build_only_plugin]) world0) =
     Inl (Error ''a bundler is required (plugin implementing `build`)'') \<and>
   filter build_event (events (snd (build calm_env (site_config ''dist'' [build_only_plugin]) world0))) =
     []"
proof -
  let ?c = "site_config ''dist'' [build_only_plugin, webpack_plugin]"
  let ?d = "site_config ''dist'' [build_only_plugin]"
  have h1: "cleaning calm_env world0 = (Inr (), cleaned_world calm_env world0)"
    by (simp add: world_defs io_defs build_defs example_defs)
  have h2: "serverStarting calm_env ?c (cleaned_world calm_env world0) =
              (Inr 3333, listening_world calm_env ?c world0)"
    by (simp add: world_defs io_defs build_defs example_defs)
  have h3: "beforeBuildHooks ?c (listening_world calm_env ?c world0) =
              (Inr [(), ()], listening_world calm_env ?c world0)"
    by (simp add: world_defs io_defs build_defs example_defs)
  have h4: "plugins ?c = [build_only_plugin] @ webpack_plugin # []"
    by (simp add: site_config_def)
  have h5: "\<forall>p\<in>set [build_only_plugin]. p_buildForPrerendering p = None"
    by (simp add: example_defs)
  have h6: "p_buildForPrerendering webpack_plugin = Some (\<lambda>s. Inr (App ''app''))"
    by (simp add: example_defs)
  have h7: "p_build webpack_plugin = Some (\<lambda>s. Inr (Assets ''main.js''))"
    by (simp add: example_defs)
  from bundler_is_first_with_buildForPrerendering
         [OF h1 h2 h3, of "[build_only_plugin]" webpack_plugin "[]" "\<lambda>s. Inr (App ''app'')"]
    h4 h5 h6 h7
  have a: "fst (bundling ?c (listening_world calm_env ?c world0)) =
             Inr (Assets ''main.js'', App ''app'')"
    by simp
  have g2: "serverStarting calm_env ?d (cleaned_world calm_env world0) =
              (Inr 3333, listening_world calm_env ?d world0)"
    by (simp add: world_defs io_defs build_defs example_defs)
  have g3: "beforeBuildHooks ?d (listening_world calm_env ?d world0) =
              (Inr [()], listening_world calm_env ?d world0)"
    by (simp add: world_defs io_defs build_defs example_defs)
  have g4: "filter (\<lambda>p. p_buildForPrerendering p \<noteq> None) (plugins ?d) = []"
    by (simp add: example_defs)
  have g5: "events world0 = []"
    by (simp add: world0_def)
  from bundler_is_first_with_buildForPrerendering [OF h1 g2 g3] g4 g5
  have b: "fst (build calm_env ?d world0) =
             Inl (Error ''a bundler is required (plugin implementing `build`)'') \<and>
           filter build_event (events (snd (build calm_env ?d world0))) = []"
    by simp
  from a b h1 h2 h3 h4 h5 h6 g4 show ?thesis by simp
qed

text \<open>
  C9 as stated fails: no plugin of this list exposes \<^verbatim>\<open>buildForPrerendering\<close>, one
  implements \<^verbatim>\<open>build\<close>, and the build fails with the error of the \<^verbatim>\<open>beforeBuild\<close> hook
  that rejects: the hooks run before the bundler is checked.
\<close>

theorem build_hook_rejection_precedes_bundler_check:
  "filter (\<lambda>p. p_buildForPrerendering p \<noteq> None)
     (plugins (site_config ''dist'' [build_only_plugin, failing_hook_plugin])) = [] \<and>
   fst (build calm_env (site_config ''dist'' [build_only_plugin, failing_hook_plugin]) world0) =
     Inl (Error ''hook failed'')"
  by (simp add: io_defs build_defs example_defs)

end
